theory Spec2Isabelle
  imports Complex_Main "HOL-Library.Multiset"
begin

section \<open>Cards and the deck (deck.py)\<close>

datatype Suit = CLUBS | DIAMONDS | HEARTS | SPADES

datatype Rank = TWO | THREE | FOUR | FIVE | SIX | SEVEN | EIGHT | NINE | TEN
  | JACK | QUEEN | KING | ACE

text \<open>The dictionary \<^verbatim>\<open>RANK_VALUES\<close>: it has a key for every rank, so the lookup is total.\<close>

fun RANK_VALUES :: "Rank \<Rightarrow> int" where
  "RANK_VALUES TWO = 2"
| "RANK_VALUES THREE = 3"
| "RANK_VALUES FOUR = 4"
| "RANK_VALUES FIVE = 5"
| "RANK_VALUES SIX = 6"
| "RANK_VALUES SEVEN = 7"
| "RANK_VALUES EIGHT = 8"
| "RANK_VALUES NINE = 9"
| "RANK_VALUES TEN = 10"
| "RANK_VALUES JACK = 10"
| "RANK_VALUES QUEEN = 10"
| "RANK_VALUES KING = 10"
| "RANK_VALUES ACE = 11"

datatype Card = Card (rank: Rank) (suit: Suit)

text \<open>The property \<^verbatim>\<open>Card.value\<close>.\<close>

definition card_value :: "Card \<Rightarrow> int" where
  "card_value c = RANK_VALUES (rank c)"

definition is_ace :: "Card \<Rightarrow> bool" where
  "is_ace c = (rank c = ACE)"

definition is_ten_value :: "Card \<Rightarrow> bool" where
  "is_ten_value c = (card_value c = 10)"

text \<open>The members of the two enumerations, in declaration order, as Python iterates them.\<close>

definition all_suits :: "Suit list" where
  "all_suits = [CLUBS, DIAMONDS, HEARTS, SPADES]"

definition all_ranks :: "Rank list" where
  "all_ranks = [TWO, THREE, FOUR, FIVE, SIX, SEVEN, EIGHT, NINE, TEN, JACK, QUEEN, KING, ACE]"

text \<open>\<^verbatim>\<open>[Card(rank, suit) for suit in Suit for rank in Rank]\<close>\<close>

definition create_deck :: "Card list" where
  "create_deck = concat (map (\<lambda>s. map (\<lambda>r. Card r s) all_ranks) all_suits)"

definition DECK_SIZE :: int where
  "DECK_SIZE = 52"

section \<open>Hands (hand.py)\<close>

datatype HandStatus = ACTIVE | STOOD | BUSTED | BLACKJACK | SURRENDERED | DOUBLED

text \<open>Money is a Python float in the source; the model computes with exact reals.\<close>

record Hand =
  cards :: "Card list"
  status :: HandStatus
  bet :: real
  is_split_hand :: bool
  is_doubled :: bool

text \<open>\<^verbatim>\<open>Hand()\<close> with the dataclass defaults, and with the keyword arguments the source uses.\<close>

definition Hand_init :: "Card list \<Rightarrow> real \<Rightarrow> bool \<Rightarrow> Hand" where
  "Hand_init cs b sp =
     \<lparr>cards = cs, status = ACTIVE, bet = b, is_split_hand = sp, is_doubled = False\<rparr>"

text \<open>
  The loop of \<^verbatim>\<open>Hand.value\<close>:
  \<^verbatim>\<open>while total > 21 and aces > 0: total -= 10; aces -= 1\<close>
\<close>

fun demote :: "int \<Rightarrow> nat \<Rightarrow> int" where
  "demote tot aces =
     (if tot > 21 \<and> aces > 0 then demote (tot - 10) (aces - 1) else tot)"

declare demote.simps [simp del]

definition hand_value :: "Hand \<Rightarrow> int" where
  "hand_value h =
     demote (sum_list (map card_value (cards h))) (length (filter is_ace (cards h)))"

text \<open>The loop of \<^verbatim>\<open>Hand.soft_value\<close>, which also counts the conversions.\<close>

fun demote_counting :: "int \<Rightarrow> nat \<Rightarrow> nat \<Rightarrow> int \<times> nat" where
  "demote_counting tot aces converted_aces =
     (if tot > 21 \<and> aces > 0
      then demote_counting (tot - 10) (aces - 1) (converted_aces + 1)
      else (tot, converted_aces))"

declare demote_counting.simps [simp del]

definition soft_value :: "Hand \<Rightarrow> int \<times> bool" where
  "soft_value h =
     (let (tot, converted_aces) =
            demote_counting (sum_list (map card_value (cards h)))
              (length (filter is_ace (cards h))) 0;
          original_aces = length (filter is_ace (cards h));
          is_soft = (original_aces > converted_aces \<and> tot \<le> 21)
      in (tot, is_soft))"

definition is_soft :: "Hand \<Rightarrow> bool" where
  "is_soft h = snd (soft_value h)"

definition is_blackjack :: "Hand \<Rightarrow> bool" where
  "is_blackjack h = (length (cards h) = 2 \<and> hand_value h = 21 \<and> \<not> is_split_hand h)"

definition is_busted :: "Hand \<Rightarrow> bool" where
  "is_busted h = (hand_value h > 21)"

definition is_pair :: "Hand \<Rightarrow> bool" where
  "is_pair h = (length (cards h) = 2 \<and> rank (cards h ! 0) = rank (cards h ! 1))"

definition can_double :: "Hand \<Rightarrow> bool" where
  "can_double h = (length (cards h) = 2 \<and> status h = ACTIVE)"

definition Hand_can_split :: "Hand \<Rightarrow> bool" where
  "Hand_can_split h = (is_pair h \<and> status h = ACTIVE)"

definition can_hit :: "Hand \<Rightarrow> bool" where
  "can_hit h = (status h = ACTIVE \<and> \<not> is_busted h)"

definition can_stand :: "Hand \<Rightarrow> bool" where
  "can_stand h = (status h = ACTIVE)"

definition can_surrender :: "Hand \<Rightarrow> bool" where
  "can_surrender h = (length (cards h) = 2 \<and> status h = ACTIVE)"

text \<open>\<^verbatim>\<open>add_card\<close> appends without looking at the status, then detects a bust.\<close>

definition add_card :: "Card \<Rightarrow> Hand \<Rightarrow> Hand" where
  "add_card c h =
     (let h' = h\<lparr>cards := cards h @ [c]\<rparr>
      in if hand_value h' > 21 then h'\<lparr>status := BUSTED\<rparr> else h')"

definition stand :: "Hand \<Rightarrow> Hand" where
  "stand h = h\<lparr>status := STOOD\<rparr>"

definition Hand_double_down :: "Hand \<Rightarrow> Hand" where
  "Hand_double_down h = h\<lparr>is_doubled := True, status := DOUBLED\<rparr>"

definition surrender :: "Hand \<Rightarrow> Hand" where
  "surrender h = h\<lparr>status := SURRENDERED\<rparr>"

text \<open>
  The failures of the source, one constructor per kind of raise:
  the three \<^verbatim>\<open>ValueError\<close> families of the players' operations, the
  \<^verbatim>\<open>IndexError\<close> of an empty shoe, the \<^verbatim>\<open>IndexError\<close> of a list index out of
  range, and the \<^verbatim>\<open>AttributeError\<close> of reading a field of \<^verbatim>\<open>None\<close>.
\<close>

datatype error = IllegalAction | InsufficientFunds | SplitBudgetExceeded
  | ShoeExhausted | IndexError | AttributeError

definition Hand_split :: "Hand \<Rightarrow> error + Hand \<times> Hand" where
  "Hand_split h =
     (if \<not> Hand_can_split h then Inl IllegalAction
      else Inr (Hand_init [cards h ! 0] (bet h) True, Hand_init [cards h ! 1] (bet h) True))"

definition upcard :: "Hand \<Rightarrow> Card option" where
  "upcard h = (if cards h \<noteq> [] then Some (cards h ! 0) else None)"

definition hole_card :: "Hand \<Rightarrow> Card option" where
  "hole_card h = (if length (cards h) \<ge> 2 then Some (cards h ! 1) else None)"

section \<open>The shoe (shoe.py)\<close>

record Shoe =
  penetration :: real
  shoe_cards :: "Card list"
  dealt_count :: int

text \<open>
  \<^verbatim>\<open>random.shuffle\<close> of the standard library is the Fisher-Yates loop
  \<^verbatim>\<open>for i in reversed(range(1, len(x))): j = randbelow(i + 1); x[i], x[j] = x[j], x[i]\<close>.
  The random draws are an input of the model: \<open>rnd i\<close> is the number drawn at index \<open>i\<close>,
  reduced below \<open>i + 1\<close> as \<^verbatim>\<open>randbelow\<close> guarantees.
\<close>

fun random_shuffle :: "(nat \<Rightarrow> nat) \<Rightarrow> nat \<Rightarrow> 'a list \<Rightarrow> 'a list" where
  "random_shuffle rnd 0 xs = xs"
| "random_shuffle rnd (Suc i) xs =
     (let j = rnd (Suc i) mod (Suc i + 1)
      in random_shuffle rnd i (xs[Suc i := xs ! j, j := xs ! Suc i]))"

definition shuffle :: "(nat \<Rightarrow> nat) \<Rightarrow> Shoe \<Rightarrow> Shoe" where
  "shuffle rnd s =
     s\<lparr>shoe_cards := random_shuffle rnd (length create_deck - 1) create_deck,
       dealt_count := 0\<rparr>"

text \<open>\<^verbatim>\<open>__post_init__\<close>: a shoe built without cards is shuffled, nothing is validated.\<close>

definition Shoe_init :: "(nat \<Rightarrow> nat) \<Rightarrow> real \<Rightarrow> Card list \<Rightarrow> int \<Rightarrow> Shoe" where
  "Shoe_init rnd pen cs dealt =
     (let s = \<lparr>penetration = pen, shoe_cards = cs, dealt_count = dealt\<rparr>
      in if cs = [] then shuffle rnd s else s)"

text \<open>\<^verbatim>\<open>deal\<close>: the top of the deck is the end of the list (\<^verbatim>\<open>pop()\<close>).\<close>

definition deal :: "Shoe \<Rightarrow> (error + Card) \<times> Shoe" where
  "deal s =
     (if shoe_cards s = [] then (Inl ShoeExhausted, s)
      else (Inr (last (shoe_cards s)),
            s\<lparr>shoe_cards := butlast (shoe_cards s), dealt_count := dealt_count s + 1\<rparr>))"

text \<open>The loop of \<^verbatim>\<open>burn\<close>; \<^verbatim>\<open>range(count)\<close> is empty for a negative count.\<close>

fun burn_loop :: "nat \<Rightarrow> Card list \<Rightarrow> Shoe \<Rightarrow> Card list \<times> Shoe" where
  "burn_loop 0 burned s = (burned, s)"
| "burn_loop (Suc n) burned s =
     (if shoe_cards s \<noteq> []
      then (case deal s of
              (Inr c, s') \<Rightarrow> burn_loop n (burned @ [c]) s'
            | (Inl err, s') \<Rightarrow> burn_loop n burned s')
      else burn_loop n burned s)"

definition burn :: "int \<Rightarrow> Shoe \<Rightarrow> Card list \<times> Shoe" where
  "burn n s = burn_loop (nat n) [] s"

definition cards_remaining :: "Shoe \<Rightarrow> int" where
  "cards_remaining s = int (length (shoe_cards s))"

definition cards_dealt :: "Shoe \<Rightarrow> int" where
  "cards_dealt s = dealt_count s"

definition penetration_reached :: "Shoe \<Rightarrow> real" where
  "penetration_reached s = real_of_int (dealt_count s) / real_of_int DECK_SIZE"

definition needs_shuffle :: "Shoe \<Rightarrow> bool" where
  "needs_shuffle s = (penetration_reached s \<ge> penetration s)"

text \<open>A caller's sequence of \<^verbatim>\<open>deal()\<close> and \<^verbatim>\<open>burn(n)\<close> calls; a failed deal leaves the
  shoe as the raise left it and the caller goes on.\<close>

datatype shoe_call = Deal | Burn int

fun shoe_step :: "Shoe \<Rightarrow> shoe_call \<Rightarrow> Shoe" where
  "shoe_step s Deal = snd (deal s)"
| "shoe_step s (Burn n) = snd (burn n s)"

definition shoe_calls :: "shoe_call list \<Rightarrow> Shoe \<Rightarrow> Shoe" where
  "shoe_calls cs s = foldl shoe_step s cs"

section \<open>The dealer (dealer.py)\<close>

datatype DealerRule = H17 | S17

record Dealer =
  hand :: Hand
  rule :: DealerRule
  hole_card_revealed :: bool

definition Dealer_new_hand :: "Dealer \<Rightarrow> Dealer" where
  "Dealer_new_hand d = d\<lparr>hand := Hand_init [] 0 False, hole_card_revealed := False\<rparr>"

text \<open>\<^verbatim>\<open>receive_card\<close> ignores \<^verbatim>\<open>face_up\<close>.\<close>

definition receive_card :: "Card \<Rightarrow> bool \<Rightarrow> Dealer \<Rightarrow> Dealer" where
  "receive_card c face_up d = d\<lparr>hand := add_card c (hand d)\<rparr>"

definition reveal_hole_card :: "Dealer \<Rightarrow> Card option \<times> Dealer" where
  "reveal_hole_card d = (hole_card (hand d), d\<lparr>hole_card_revealed := True\<rparr>)"

definition should_hit :: "Dealer \<Rightarrow> bool" where
  "should_hit d =
     (let (v, soft) = soft_value (hand d)
      in if v < 17 then True
         else if v = 17 \<and> soft then rule d = H17
         else False)"

section \<open>The player (player.py)\<close>

record Player =
  bankroll :: real
  hands :: "Hand list"
  base_bet :: real
  max_splits :: int
  split_count :: int

text \<open>
  Python list indexing \<^verbatim>\<open>xs[i]\<close>: a negative index counts from the end, an index out of
  range raises \<^verbatim>\<open>IndexError\<close> (\<open>None\<close> here). The result is the position read.
\<close>

definition py_index :: "'a list \<Rightarrow> int \<Rightarrow> nat option" where
  "py_index xs i =
     (let n = int (length xs); j = (if i < 0 then n + i else i)
      in if 0 \<le> j \<and> j < n then Some (nat j) else None)"

text \<open>
  Python \<^verbatim>\<open>xs.insert(i, x)\<close> never raises: a negative index counts from the end and the
  index is then clamped to the list. \<open>py_insert_pos\<close> is the position the element gets.
\<close>

definition py_insert_pos :: "'a list \<Rightarrow> int \<Rightarrow> nat" where
  "py_insert_pos xs i =
     (let n = int (length xs) in nat (if i < 0 then max 0 (n + i) else min i n))"

definition py_insert :: "int \<Rightarrow> 'a \<Rightarrow> 'a list \<Rightarrow> 'a list" where
  "py_insert i x xs = take (py_insert_pos xs i) xs @ [x] @ drop (py_insert_pos xs i) xs"

text \<open>
  Every operation returns the player as the call leaves it, also when it raises.
\<close>

definition Player_new_hand :: "real option \<Rightarrow> Player \<Rightarrow> (error + Hand) \<times> Player" where
  "Player_new_hand b p =
     (let bet_amount = (case b of None \<Rightarrow> base_bet p | Some x \<Rightarrow> x)
      in if bet_amount > bankroll p then (Inl InsufficientFunds, p)
         else (let h = Hand_init [] bet_amount False
               in (Inr h, p\<lparr>hands := [h], split_count := 0,
                            bankroll := bankroll p - bet_amount\<rparr>)))"

text \<open>
  \<^verbatim>\<open>split_hand\<close> returns the two new hand objects, which the engine then deals to. The
  model returns the positions at which the two hands stand in the new list.
\<close>

definition split_hand :: "int \<Rightarrow> Player \<Rightarrow> (error + nat \<times> nat) \<times> Player" where
  "split_hand hand_index p =
     (if split_count p \<ge> max_splits p then (Inl SplitBudgetExceeded, p)
      else (case py_index (hands p) hand_index of
              None \<Rightarrow> (Inl IndexError, p)
            | Some k \<Rightarrow>
               (let h = hands p ! k
                in if \<not> Hand_can_split h then (Inl IllegalAction, p)
                   else if bet h > bankroll p then (Inl InsufficientFunds, p)
                   else (let p1 = p\<lparr>bankroll := bankroll p - bet h\<rparr>
                         in (case Hand_split h of
                               Inl err \<Rightarrow> (Inl err, p1)
                             | Inr (hand1, hand2) \<Rightarrow>
                                (let hs1 = (hands p1)[k := hand1];
                                     j = py_insert_pos hs1 (hand_index + 1);
                                     hs2 = py_insert (hand_index + 1) hand2 hs1
                                 in (Inr (if j \<le> k then k + 1 else k, j),
                                     p1\<lparr>hands := hs2,
                                        split_count := split_count p1 + 1\<rparr>)))))))"

definition Player_double_down :: "int \<Rightarrow> Player \<Rightarrow> (error + unit) \<times> Player" where
  "Player_double_down hand_index p =
     (case py_index (hands p) hand_index of
        None \<Rightarrow> (Inl IndexError, p)
      | Some k \<Rightarrow>
         (let h = hands p ! k
          in if \<not> can_double h then (Inl IllegalAction, p)
             else if bet h > bankroll p then (Inl InsufficientFunds, p)
             else (Inr (),
                   p\<lparr>bankroll := bankroll p - bet h,
                     hands := (hands p)[k := Hand_double_down (h\<lparr>bet := bet h * 2\<rparr>)]\<rparr>)))"

definition surrender_hand :: "int \<Rightarrow> Player \<Rightarrow> (error + real) \<times> Player" where
  "surrender_hand hand_index p =
     (case py_index (hands p) hand_index of
        None \<Rightarrow> (Inl IndexError, p)
      | Some k \<Rightarrow>
         (let h = hands p ! k
          in if \<not> can_surrender h then (Inl IllegalAction, p)
             else (let refund = bet h / 2
                   in (Inr refund,
                       p\<lparr>bankroll := bankroll p + refund,
                         hands := (hands p)[k := surrender h]\<rparr>))))"

definition receive_payout :: "real \<Rightarrow> Player \<Rightarrow> Player" where
  "receive_payout amount p = p\<lparr>bankroll := bankroll p + amount\<rparr>"

section \<open>The engine (engine.py)\<close>

datatype Action = HIT | STAND | DOUBLE | SPLIT | SURRENDER

datatype RoundResult = WIN | LOSE | PUSH | Result_BLACKJACK | Result_SURRENDER

record HandResult =
  hr_hand :: Hand
  result :: RoundResult
  payout :: real

record RoundSummary =
  player_hands :: "HandResult list"
  dealer_hand :: Hand
  total_payout :: real

text \<open>
  \<^verbatim>\<open>on_card_exposed\<close> is an optional callback of the caller. The model keeps whether one
  is installed and, in \<open>exposed\<close>, the cards it has been called with, in order.
\<close>

record GameEngine =
  shoe :: Shoe
  player :: Player
  dealer :: Dealer
  on_card_exposed :: bool
  exposed :: "Card list"
  blackjack_payout :: real
  round_in_progress :: bool

definition notify :: "Card \<Rightarrow> GameEngine \<Rightarrow> GameEngine" where
  "notify c e = (if on_card_exposed e then e\<lparr>exposed := exposed e @ [c]\<rparr> else e)"

text \<open>\<^verbatim>\<open>_deal_card\<close>; the hand object is given by its position \<open>k\<close> in the player's list.\<close>

definition deal_card :: "nat \<Rightarrow> bool \<Rightarrow> GameEngine \<Rightarrow> (error + Card) \<times> GameEngine" where
  "deal_card k face_up e =
     (case deal (shoe e) of
        (Inl err, s') \<Rightarrow> (Inl err, e\<lparr>shoe := s'\<rparr>)
      | (Inr c, s') \<Rightarrow>
         (let e1 = e\<lparr>shoe := s',
                     player := (player e)\<lparr>hands :=
                       (hands (player e))[k := add_card c (hands (player e) ! k)]\<rparr>\<rparr>
          in (Inr c, if face_up then notify c e1 else e1)))"

definition deal_to_dealer :: "bool \<Rightarrow> GameEngine \<Rightarrow> (error + Card) \<times> GameEngine" where
  "deal_to_dealer face_up e =
     (case deal (shoe e) of
        (Inl err, s') \<Rightarrow> (Inl err, e\<lparr>shoe := s'\<rparr>)
      | (Inr c, s') \<Rightarrow>
         (let e1 = e\<lparr>shoe := s', dealer := receive_card c face_up (dealer e)\<rparr>
          in (Inr c, if face_up then notify c e1 else e1)))"

definition start_round ::
  "(nat \<Rightarrow> nat) \<Rightarrow> real option \<Rightarrow> GameEngine \<Rightarrow> (error + Hand \<times> Card option) \<times> GameEngine"
where
  "start_round rnd b e =
     (let e0 = (if needs_shuffle (shoe e)
                then (let (burned, s) = burn 1 (shuffle rnd (shoe e));
                          e' = e\<lparr>shoe := s\<rparr>
                      in if burned \<noteq> [] then notify (burned ! 0) e' else e')
                else e)
      in case Player_new_hand b (player e0) of
           (Inl err, p) \<Rightarrow> (Inl err, e0\<lparr>player := p\<rparr>)
         | (Inr player_hand, p) \<Rightarrow>
      (let e1 = e0\<lparr>player := p, dealer := Dealer_new_hand (dealer e0)\<rparr>
       in case deal_card 0 True e1 of (Inl err, e2) \<Rightarrow> (Inl err, e2) | (Inr c1, e2) \<Rightarrow>
          (case deal_to_dealer True e2 of (Inl err, e3) \<Rightarrow> (Inl err, e3) | (Inr c2, e3) \<Rightarrow>
          (case deal_card 0 True e3 of (Inl err, e4) \<Rightarrow> (Inl err, e4) | (Inr c3, e4) \<Rightarrow>
          (case deal_to_dealer False e4 of (Inl err, e5) \<Rightarrow> (Inl err, e5) | (Inr c4, e5) \<Rightarrow>
             (Inr (hands (player e5) ! 0, upcard (hand (dealer e5))),
              e5\<lparr>round_in_progress := True\<rparr>))))))"

definition set_status :: "nat \<Rightarrow> HandStatus \<Rightarrow> GameEngine \<Rightarrow> GameEngine" where
  "set_status k st e =
     e\<lparr>player := (player e)\<lparr>hands :=
         (hands (player e))[k := (hands (player e) ! k)\<lparr>status := st\<rparr>]\<rparr>\<rparr>"

definition execute_action ::
  "Action \<Rightarrow> int \<Rightarrow> GameEngine \<Rightarrow> (error + Card option) \<times> GameEngine"
where
  "execute_action action hand_index e =
     (case py_index (hands (player e)) hand_index of
        None \<Rightarrow> (Inl IndexError, e)
      | Some k \<Rightarrow>
     (let h = hands (player e) ! k
      in case action of
        HIT \<Rightarrow>
          if \<not> can_hit h then (Inl IllegalAction, e)
          else (case deal_card k True e of
                  (Inl err, e1) \<Rightarrow> (Inl err, e1)
                | (Inr c, e1) \<Rightarrow> (Inr (Some c), e1))
      | STAND \<Rightarrow>
          if \<not> can_stand h then (Inl IllegalAction, e)
          else (Inr None,
                e\<lparr>player := (player e)\<lparr>hands := (hands (player e))[k := stand h]\<rparr>\<rparr>)
      | DOUBLE \<Rightarrow>
          if \<not> can_double h then (Inl IllegalAction, e)
          else (case Player_double_down hand_index (player e) of
                  (Inl err, p) \<Rightarrow> (Inl err, e\<lparr>player := p\<rparr>)
                | (Inr u, p) \<Rightarrow>
                   (case deal_card k True (e\<lparr>player := p\<rparr>) of
                      (Inl err, e1) \<Rightarrow> (Inl err, e1)
                    | (Inr c, e1) \<Rightarrow> (Inr (Some c), set_status k STOOD e1)))
      | SPLIT \<Rightarrow>
          if \<not> Hand_can_split h then (Inl IllegalAction, e)
          else (case split_hand hand_index (player e) of
                  (Inl err, p) \<Rightarrow> (Inl err, e\<lparr>player := p\<rparr>)
                | (Inr (k1, k2), p) \<Rightarrow>
                   (case deal_card k1 True (e\<lparr>player := p\<rparr>) of
                      (Inl err, e1) \<Rightarrow> (Inl err, e1)
                    | (Inr c1, e1) \<Rightarrow>
                       (case deal_card k2 True e1 of
                          (Inl err, e2) \<Rightarrow> (Inl err, e2)
                        | (Inr c2, e2) \<Rightarrow> (Inr None, e2))))
      | SURRENDER \<Rightarrow>
          if \<not> can_surrender h then (Inl IllegalAction, e)
          else (case surrender_hand hand_index (player e) of
                  (Inl err, p) \<Rightarrow> (Inl err, e\<lparr>player := p\<rparr>)
                | (Inr refund, p) \<Rightarrow> (Inr None, e\<lparr>player := p\<rparr>))))"

text \<open>
  The three lines the engine repeats at each reveal:
  \<^verbatim>\<open>hole_card = self.dealer.reveal_hole_card()\<close>, then the callback when there is a hole
  card and a callback.
\<close>

definition reveal_and_notify :: "GameEngine \<Rightarrow> GameEngine" where
  "reveal_and_notify e =
     (let (hc, d) = reveal_hole_card (dealer e); e1 = e\<lparr>dealer := d\<rparr>
      in case hc of None \<Rightarrow> e1 | Some c \<Rightarrow> notify c e1)"

text \<open>The closure \<^verbatim>\<open>deal_callback\<close> that \<^verbatim>\<open>play_dealer\<close> hands to the dealer.\<close>

definition deal_callback :: "GameEngine \<Rightarrow> (error + Card) \<times> GameEngine" where
  "deal_callback e =
     (case deal (shoe e) of
        (Inl err, s') \<Rightarrow> (Inl err, e\<lparr>shoe := s'\<rparr>)
      | (Inr c, s') \<Rightarrow>
         (Inr c, notify c (e\<lparr>shoe := s', dealer := receive_card c True (dealer e)\<rparr>)))"

text \<open>
  The loop of \<^verbatim>\<open>Dealer.play\<close>, run on the engine's state because the callback is the
  closure above: the card the callback returns is passed to \<^verbatim>\<open>receive_card\<close> by the
  loop as well.
\<close>

function dealer_play_loop :: "GameEngine \<Rightarrow> (error + unit) \<times> GameEngine" where
  "dealer_play_loop e =
     (if should_hit (dealer e) \<and> \<not> is_busted (hand (dealer e))
      then (case deal_callback e of
              (Inl err, e1) \<Rightarrow> (Inl err, e1)
            | (Inr c, e1) \<Rightarrow>
                dealer_play_loop (e1\<lparr>dealer := receive_card c True (dealer e1)\<rparr>))
      else (Inr (), e))"
  by pat_completeness auto
termination
proof (relation "measure (\<lambda>e. length (shoe_cards (shoe e)))", goal_cases)
  case 1
  show ?case by simp
next
  case 2
  then show ?case
    by (auto simp: deal_callback_def deal_def notify_def split: if_splits)
qed

declare dealer_play_loop.simps [simp del]

definition Dealer_play :: "GameEngine \<Rightarrow> (error + unit) \<times> GameEngine" where
  "Dealer_play e =
     (let e0 = (if \<not> hole_card_revealed (dealer e)
                then e\<lparr>dealer := snd (reveal_hole_card (dealer e))\<rparr> else e)
      in case dealer_play_loop e0 of
           (Inl err, e1) \<Rightarrow> (Inl err, e1)
         | (Inr u, e1) \<Rightarrow>
             (Inr (),
              e1\<lparr>dealer := (dealer e1)\<lparr>hand := (hand (dealer e1))
                   \<lparr>status := (if \<not> is_busted (hand (dealer e1)) then STOOD else BUSTED)\<rparr>\<rparr>\<rparr>))"

definition play_dealer :: "GameEngine \<Rightarrow> (error + unit) \<times> GameEngine" where
  "play_dealer e = Dealer_play (reveal_and_notify e)"

definition create_summary :: "HandResult list \<Rightarrow> GameEngine \<Rightarrow> RoundSummary" where
  "create_summary hand_results e =
     \<lparr>player_hands = hand_results, dealer_hand = hand (dealer e),
      total_payout = sum_list (map payout hand_results)\<rparr>"

definition check_early_blackjack ::
  "GameEngine \<Rightarrow> (error + RoundSummary option) \<times> GameEngine"
where
  "check_early_blackjack e =
     (case py_index (hands (player e)) 0 of
        None \<Rightarrow> (Inl IndexError, e)
      | Some k \<Rightarrow>
     (case upcard (hand (dealer e)) of
        None \<Rightarrow> (Inl AttributeError, e)
      | Some dealer_upcard \<Rightarrow>
     (let player_hand = hands (player e) ! k;
          player_bj = is_blackjack player_hand;
          dealer_might_have_bj = (is_ace dealer_upcard \<or> is_ten_value dealer_upcard)
      in if player_bj \<or> dealer_might_have_bj
         then (let dealer_bj = is_blackjack (hand (dealer e))
               in if dealer_bj
                  then (let e1 = reveal_and_notify e
                        in if player_bj
                           then (let e2 = e1\<lparr>player :=
                                        receive_payout (bet player_hand) (player e1)\<rparr>
                                 in (Inr (Some (create_summary
                                        [\<lparr>hr_hand = player_hand, result = PUSH, payout = 0\<rparr>]
                                        e2)), e2))
                           else (Inr (Some (create_summary
                                   [\<lparr>hr_hand = player_hand, result = LOSE,
                                     payout = - bet player_hand\<rparr>] e1)), e1))
                  else if player_bj
                  then (let pay = bet player_hand * blackjack_payout e;
                            e1 = e\<lparr>player :=
                                   receive_payout (bet player_hand + pay) (player e)\<rparr>;
                            e2 = reveal_and_notify e1
                        in (Inr (Some (create_summary
                               [\<lparr>hr_hand = player_hand, result = Result_BLACKJACK,
                                 payout = pay\<rparr>] e2)), e2))
                  else (Inr None, e))
         else (Inr None, e))))"

text \<open>The loop of \<^verbatim>\<open>resolve_round\<close> over the player's hands.\<close>

fun resolve_hands ::
  "int \<Rightarrow> bool \<Rightarrow> Hand list \<Rightarrow> HandResult list \<Rightarrow> Player \<Rightarrow> HandResult list \<times> Player"
where
  "resolve_hands dealer_value dealer_busted [] hand_results p = (hand_results, p)"
| "resolve_hands dealer_value dealer_busted (h # hs) hand_results p =
     (if status h = SURRENDERED
      then resolve_hands dealer_value dealer_busted hs
             (hand_results @ [\<lparr>hr_hand = h, result = Result_SURRENDER, payout = - bet h / 2\<rparr>]) p
      else if is_busted h
      then resolve_hands dealer_value dealer_busted hs
             (hand_results @ [\<lparr>hr_hand = h, result = LOSE, payout = - bet h\<rparr>]) p
      else (let player_value = hand_value h
            in if dealer_busted
               then resolve_hands dealer_value dealer_busted hs
                      (hand_results @ [\<lparr>hr_hand = h, result = WIN, payout = bet h\<rparr>])
                      (receive_payout (bet h * 2) p)
               else if player_value > dealer_value
               then resolve_hands dealer_value dealer_busted hs
                      (hand_results @ [\<lparr>hr_hand = h, result = WIN, payout = bet h\<rparr>])
                      (receive_payout (bet h * 2) p)
               else if player_value < dealer_value
               then resolve_hands dealer_value dealer_busted hs
                      (hand_results @ [\<lparr>hr_hand = h, result = LOSE, payout = - bet h\<rparr>]) p
               else resolve_hands dealer_value dealer_busted hs
                      (hand_results @ [\<lparr>hr_hand = h, result = PUSH, payout = 0\<rparr>])
                      (receive_payout (bet h) p)))"

definition resolve_round :: "GameEngine \<Rightarrow> RoundSummary \<times> GameEngine" where
  "resolve_round e =
     (let e0 = e\<lparr>round_in_progress := False\<rparr>;
          dealer_value = hand_value (hand (dealer e0));
          dealer_busted = is_busted (hand (dealer e0));
          (hand_results, p) =
             resolve_hands dealer_value dealer_busted (hands (player e0)) [] (player e0);
          e1 = e0\<lparr>player := p\<rparr>
      in (create_summary hand_results e1, e1))"

text \<open>
  A caller's sequence of engine calls within a round. A call that raises leaves the engine
  as the raise left it, and the caller goes on with the next call.
\<close>

datatype engine_call = Execute Action int | CheckEarlyBlackjack | PlayDealer | ResolveRound

fun engine_step :: "GameEngine \<Rightarrow> engine_call \<Rightarrow> GameEngine" where
  "engine_step e (Execute a i) = snd (execute_action a i e)"
| "engine_step e CheckEarlyBlackjack = snd (check_early_blackjack e)"
| "engine_step e PlayDealer = snd (play_dealer e)"
| "engine_step e ResolveRound = snd (resolve_round e)"

definition engine_calls :: "engine_call list \<Rightarrow> GameEngine \<Rightarrow> GameEngine" where
  "engine_calls cs e = foldl engine_step e cs"

section \<open>Construction from the configuration (config.py, main.py)\<close>

record GameConfig =
  dealer_rule :: DealerRule
  config_penetration :: real
  config_blackjack_payout :: real
  allow_das :: bool
  allow_surrender :: bool
  config_max_splits :: int
  resplit_aces :: bool

record TrainingConfig =
  cards_per_drill :: int
  count_quiz_frequency :: real
  show_true_count :: bool
  show_correct_action :: bool
  auto_advance_delay_ms :: int
  starting_bankroll :: real
  config_base_bet :: real

text \<open>
  The constructors are the ones \<^verbatim>\<open>@dataclass\<close> generates: they store their arguments.
  None of the classes has a check in \<^verbatim>\<open>__post_init__\<close>.
\<close>

definition GameConfig_init ::
  "DealerRule \<Rightarrow> real \<Rightarrow> real \<Rightarrow> bool \<Rightarrow> bool \<Rightarrow> int \<Rightarrow> bool \<Rightarrow> GameConfig" where
  "GameConfig_init r pen bp das sur ms ra =
     \<lparr>dealer_rule = r, config_penetration = pen, config_blackjack_payout = bp,
      allow_das = das, allow_surrender = sur, config_max_splits = ms, resplit_aces = ra\<rparr>"

definition Player_init :: "real \<Rightarrow> Hand list \<Rightarrow> real \<Rightarrow> int \<Rightarrow> int \<Rightarrow> Player" where
  "Player_init br hs bb ms sc =
     \<lparr>bankroll = br, hands = hs, base_bet = bb, max_splits = ms, split_count = sc\<rparr>"

definition Dealer_init :: "Hand \<Rightarrow> DealerRule \<Rightarrow> bool \<Rightarrow> Dealer" where
  "Dealer_init h r shown = \<lparr>hand = h, rule = r, hole_card_revealed = shown\<rparr>"

definition GameEngine_init ::
  "Shoe \<Rightarrow> Player \<Rightarrow> Dealer \<Rightarrow> bool \<Rightarrow> real \<Rightarrow> GameEngine" where
  "GameEngine_init s p d cb bp =
     \<lparr>shoe = s, player = p, dealer = d, on_card_exposed = cb, exposed = [],
      blackjack_payout = bp, round_in_progress = False\<rparr>"

text \<open>
  The components as \<^verbatim>\<open>full_play_mode\<close> builds them from the configuration; every
  argument it does not pass takes the dataclass default.
\<close>

definition full_play_engine :: "(nat \<Rightarrow> nat) \<Rightarrow> GameConfig \<Rightarrow> TrainingConfig \<Rightarrow> GameEngine" where
  "full_play_engine rnd game training =
     GameEngine_init
       (Shoe_init rnd (config_penetration game) [] 0)
       (Player_init (starting_bankroll training) [] (config_base_bet training) 3 0)
       (Dealer_init (Hand_init [] 0 False) (dealer_rule game) False)
       True (3 / 2)"

section \<open>Reference definitions\<close>

text \<open>The two sums the specification compares a hand's value with, and the number of Aces.\<close>

definition aces_as_eleven :: "Hand \<Rightarrow> int" where
  "aces_as_eleven h = sum_list (map card_value (cards h))"

definition aces_as_one :: "Hand \<Rightarrow> int" where
  "aces_as_one h = sum_list (map (\<lambda>c. if is_ace c then 1 else card_value c) (cards h))"

definition ace_count :: "Hand \<Rightarrow> nat" where
  "ace_count h = length (filter is_ace (cards h))"

text \<open>
  The value as the specification words it: the sum with Aces at 11, less 10 for each
  demotion, where demotions go on while the total exceeds 21 and an Ace is left. A total
  \<open>t\<close> needs \<open>(t - 12) div 10\<close> demotions to come down to 21 or less.
\<close>

definition demotions_needed :: "int \<Rightarrow> nat" where
  "demotions_needed t = nat ((t - 12) div 10)"

definition value_reference :: "Hand \<Rightarrow> int" where
  "value_reference h =
     aces_as_eleven h - 10 * int (min (ace_count h) (demotions_needed (aces_as_eleven h)))"

text \<open>A random source and a sample engine in mid-round for the concrete evaluations below:
  bankroll 90 after a bet of 10, blackjack paid 3:2, a callback installed.\<close>

definition no_draws :: "nat \<Rightarrow> nat" where
  "no_draws i = 0"

definition sample_engine :: "Card list \<Rightarrow> Hand list \<Rightarrow> Card list \<Rightarrow> GameEngine" where
  "sample_engine shoe_cs player_hs dealer_cs =
     GameEngine_init
       \<lparr>penetration = 65 / 100, shoe_cards = shoe_cs, dealt_count = 4\<rparr>
       (Player_init 90 player_hs 10 3 0)
       (Dealer_init (Hand_init dealer_cs 0 False) H17 False)
       True (3 / 2)"

text \<open>
  Auxiliary notions for the round invariant. \<open>start_state\<close> is the engine after the
  reshuffle test at the head of \<^verbatim>\<open>start_round\<close>. \<open>draws s s'\<close> says that \<open>s'\<close> comes
  from \<open>s\<close> with the dealer untouched, cards only taken from the shoe, and only cards
  of the shoe added to the exposure log. \<open>hole_hidden n hc s\<close> says that, unless the
  hole card has been revealed, it is \<open>hc\<close>, it is not in the shoe, and the callback has
  not received it since position \<open>n\<close> of the log.
\<close>

definition start_state :: "(nat \<Rightarrow> nat) \<Rightarrow> GameEngine \<Rightarrow> GameEngine" where
  "start_state rnd e =
     (if needs_shuffle (shoe e)
      then (let (burned, s) = burn 1 (shuffle rnd (shoe e));
                e' = e\<lparr>shoe := s\<rparr>
            in if burned \<noteq> [] then notify (burned ! 0) e' else e')
      else e)"

definition draws :: "GameEngine \<Rightarrow> GameEngine \<Rightarrow> bool" where
  "draws s s' =
     (dealer s' = dealer s
      \<and> set (shoe_cards (shoe s')) \<subseteq> set (shoe_cards (shoe s))
      \<and> (\<exists>xs. exposed s' = exposed s @ xs \<and> set xs \<subseteq> set (shoe_cards (shoe s))))"

definition hole_hidden :: "nat \<Rightarrow> Card \<Rightarrow> GameEngine \<Rightarrow> bool" where
  "hole_hidden n hc s =
     (hole_card_revealed (dealer s)
      \<or> (hole_card (hand (dealer s)) = Some hc
         \<and> hc \<notin> set (shoe_cards (shoe s))
         \<and> hc \<notin> set (drop n (exposed s))))"

section \<open>Hand values\<close>

lemma demote_closed: "demote t a = t - 10 * int (min a (demotions_needed t))"
proof (induction t a rule: demote.induct)
  case (1 t a)
  show ?case
  proof (cases "t > 21 \<and> a > 0")
    case True
    then have "demote t a = demote (t - 10) (a - 1)" by (simp add: demote.simps[of t a])
    also have "\<dots> = (t - 10) - 10 * int (min (a - 1) (demotions_needed (t - 10)))"
      using 1 True by simp
    also have "demotions_needed (t - 10) = demotions_needed t - 1"
      using True by (simp add: demotions_needed_def nat_diff_distrib')
    finally show ?thesis using True
      by (cases a) (auto simp: demotions_needed_def min_def)
  next
    case False
    then show ?thesis by (auto simp: demote.simps[of t a] demotions_needed_def)
  qed
qed

lemma demote_bounds:
  "t - 10 * int a \<le> demote t a \<and> demote t a \<le> t
   \<and> (21 < demote t a) = (21 < t - 10 * int a)"
proof (induction t a rule: demote.induct)
  case (1 t a)
  show ?case
  proof (cases "t > 21 \<and> a > 0")
    case True
    then have "demote t a = demote (t - 10) (a - 1)" by (simp add: demote.simps[of t a])
    with 1 True show ?thesis by (cases a) auto
  next
    case False
    then show ?thesis by (auto simp: demote.simps[of t a])
  qed
qed

lemma aces_as_one_sum:
  "sum_list (map (\<lambda>c. if is_ace c then 1 else card_value c) cs)
   = sum_list (map card_value cs) - 10 * int (length (filter is_ace cs))"
  by (induction cs) (auto simp: is_ace_def card_value_def)

text \<open>
  C7. The value of a hand is the sum with Aces at 11 less 10 for each demotion the
  specification describes; it lies between the sum with every Ace at 1 and the sum with
  every Ace at 11, and it exceeds 21 exactly when the sum with every Ace at 1 does.
\<close>

theorem hand_value_reference:
  "hand_value h = value_reference h
   \<and> aces_as_one h \<le> hand_value h \<and> hand_value h \<le> aces_as_eleven h
   \<and> (21 < hand_value h) = (21 < aces_as_one h)"
  using demote_bounds[of "sum_list (map card_value (cards h))"
                         "length (filter is_ace (cards h))"]
  by (simp add: hand_value_def value_reference_def aces_as_one_def aces_as_eleven_def
                ace_count_def demote_closed aces_as_one_sum)

section \<open>The shoe\<close>

lemma length_create_deck: "length create_deck = 52"
  by (simp add: create_deck_def all_suits_def all_ranks_def)

lemma distinct_create_deck: "distinct create_deck"
  by (simp add: create_deck_def all_suits_def all_ranks_def)

lemma set_create_deck: "set create_deck = UNIV"
proof -
  have "c \<in> set create_deck" for c
  proof (cases c)
    case (Card r s)
    have "r \<in> set all_ranks" by (cases r) (simp_all add: all_ranks_def)
    moreover have "s \<in> set all_suits" by (cases s) (simp_all add: all_suits_def)
    ultimately show ?thesis using Card by (auto simp: create_deck_def)
  qed
  then show ?thesis by auto
qed

lemma mset_random_shuffle: "i < length xs \<Longrightarrow> mset (random_shuffle rnd i xs) = mset xs"
proof (induction i arbitrary: xs)
  case 0
  then show ?case by simp
next
  case (Suc i)
  let ?j = "rnd (Suc i) mod (Suc i + 1)"
  have "?j < Suc i + 1" by (rule mod_less_divisor) simp
  then have j: "?j < length xs" using Suc.prems by linarith
  have "mset (xs[Suc i := xs ! ?j, ?j := xs ! Suc i]) = mset xs"
    using Suc.prems j by (simp add: mset_swap)
  moreover have "i < length (xs[Suc i := xs ! ?j, ?j := xs ! Suc i])"
    using Suc.prems by simp
  ultimately show ?case using Suc.IH by (simp add: Let_def)
qed

lemma mset_shuffle: "mset (shoe_cards (shuffle rnd s)) = mset create_deck"
  by (simp add: shuffle_def mset_random_shuffle length_create_deck)

lemma distinct_shuffle: "distinct (shoe_cards (shuffle rnd s))"
  using mset_shuffle[of rnd s] distinct_create_deck by (metis mset_eq_imp_distinct_iff)

lemma deal_conserves:
  "cards_remaining (snd (deal s)) + cards_dealt (snd (deal s))
   = cards_remaining s + cards_dealt s"
  by (cases "shoe_cards s" rule: rev_cases)
     (simp_all add: deal_def cards_remaining_def cards_dealt_def)

lemma burn_loop_conserves:
  "cards_remaining (snd (burn_loop n b s)) + cards_dealt (snd (burn_loop n b s))
   = cards_remaining s + cards_dealt s"
proof (induction n arbitrary: b s)
  case 0
  then show ?case by simp
next
  case (Suc n)
  show ?case
  proof (cases "deal s")
    case (Pair r s')
    then have "cards_remaining s' + cards_dealt s' = cards_remaining s + cards_dealt s"
      using deal_conserves[of s] by simp
    with Pair Suc show ?thesis by (cases r) simp_all
  qed
qed

lemma shoe_step_conserves:
  "cards_remaining (shoe_step s c) + cards_dealt (shoe_step s c)
   = cards_remaining s + cards_dealt s"
  by (cases c) (simp_all add: deal_conserves burn_def burn_loop_conserves)

lemma shoe_calls_conserves:
  "cards_remaining (shoe_calls cs s) + cards_dealt (shoe_calls cs s)
   = cards_remaining s + cards_dealt s"
  unfolding shoe_calls_def
  by (induction cs arbitrary: s) (simp_all add: shoe_step_conserves)

text \<open>
  C6. After a shuffle, whatever \<^verbatim>\<open>deal()\<close> and \<^verbatim>\<open>burn(n)\<close> calls follow, the cards
  remaining and the cards dealt add up to 52; and a shuffle of any shoe leaves no card
  dealt and 52 cards remaining, which are the 52 cards of a fresh deck, each once.
\<close>

theorem shoe_conservation:
  "cards_remaining (shoe_calls cs (shuffle rnd s))
     + cards_dealt (shoe_calls cs (shuffle rnd s)) = 52
   \<and> cards_dealt (shuffle rnd s) = 0
   \<and> cards_remaining (shuffle rnd s) = 52
   \<and> mset (shoe_cards (shuffle rnd s)) = mset create_deck
   \<and> distinct (shoe_cards (shuffle rnd s))
   \<and> set (shoe_cards (shuffle rnd s)) = UNIV"
proof -
  have m: "mset (shoe_cards (shuffle rnd s)) = mset create_deck" by (rule mset_shuffle)
  have u: "set (shoe_cards (shuffle rnd s)) = UNIV"
    using m set_create_deck by (metis mset_eq_setD)
  have "length (shoe_cards (shuffle rnd s)) = 52"
    using m length_create_deck by (metis mset_eq_length)
  then have l: "cards_remaining (shuffle rnd s) = 52" by (simp add: cards_remaining_def)
  have z: "cards_dealt (shuffle rnd s) = 0" by (simp add: cards_dealt_def shuffle_def)
  show ?thesis using m u l z by (simp add: shoe_calls_conserves distinct_shuffle)
qed

section \<open>The dealer's policy\<close>

lemma soft_value_cards: "cards h' = cards h \<Longrightarrow> soft_value h' = soft_value h"
  by (simp add: soft_value_def)

text \<open>
  C8. \<^verbatim>\<open>should_hit\<close> is true exactly when the total of \<^verbatim>\<open>soft_value\<close> is below 17,
  or is 17 on a soft hand under H17. It depends only on the hand's cards and the rule.
  A dealer holding the Ace of spades and the six of diamonds hits exactly under H17.
\<close>

theorem should_hit_policy:
  "should_hit d =
     (fst (soft_value (hand d)) < 17
      \<or> (fst (soft_value (hand d)) = 17 \<and> snd (soft_value (hand d)) \<and> rule d = H17))
   \<and> (cards (hand d') = cards (hand d) \<and> rule d' = rule d
        \<longrightarrow> should_hit d' = should_hit d)
   \<and> (cards (hand d) = [Card ACE SPADES, Card SIX DIAMONDS]
        \<longrightarrow> should_hit d = (rule d = H17))"
proof -
  have a: "should_hit d =
     (fst (soft_value (hand d)) < 17
      \<or> (fst (soft_value (hand d)) = 17 \<and> snd (soft_value (hand d)) \<and> rule d = H17))"
    by (auto simp: should_hit_def split: prod.splits)
  have b: "should_hit d' = should_hit d"
    if "cards (hand d') = cards (hand d)" "rule d' = rule d"
    using that soft_value_cards[of "hand d'" "hand d"] by (simp add: should_hit_def)
  have c: "should_hit d = (rule d = H17)"
    if "cards (hand d) = [Card ACE SPADES, Card SIX DIAMONDS]"
  proof -
    have "soft_value (hand d) = (17, True)"
      using that
      by (simp add: soft_value_def card_value_def is_ace_def demote_counting.simps[of 17])
    then show ?thesis by (simp add: should_hit_def)
  qed
  show ?thesis using a b c by blast
qed

theorem should_hit_policy_witness:
  "should_hit (Dealer_init (Hand_init [Card ACE SPADES, Card SIX DIAMONDS] 0 False) H17 True)
   \<and> \<not> should_hit
         (Dealer_init (Hand_init [Card ACE SPADES, Card SIX DIAMONDS] 0 False) S17 True)
   \<and> should_hit
         (Dealer_init (Hand_init [Card ACE SPADES, Card SIX DIAMONDS] 5 True) H17 False)"
  using should_hit_policy
          [of "Dealer_init (Hand_init [Card ACE SPADES, Card SIX DIAMONDS] 0 False) H17 True"
              "Dealer_init (Hand_init [Card ACE SPADES, Card SIX DIAMONDS] 5 True) H17 False",
           THEN conjunct2]
        should_hit_policy
          [of "Dealer_init (Hand_init [Card ACE SPADES, Card SIX DIAMONDS] 0 False) S17 True"
              "Dealer_init (Hand_init [Card ACE SPADES, Card SIX DIAMONDS] 0 False) S17 True",
           THEN conjunct2, THEN conjunct2]
  by (simp add: Dealer_init_def Hand_init_def)

section \<open>Evaluation rules and helper facts\<close>

lemma demote_stop: "\<not> (t > 21 \<and> a > 0) \<Longrightarrow> demote t a = t"
  by (subst demote.simps) auto

lemma demote_step: "t > 21 \<and> a > 0 \<Longrightarrow> demote t a = demote (t - 10) (a - 1)"
  by (simp add: demote.simps[of t a])

lemmas eval_hand = hand_value_def card_value_def is_ace_def is_ten_value_def
  demote_stop demote_step
  is_blackjack_def is_busted_def can_double_def can_hit_def is_pair_def Hand_can_split_def
  can_stand_def can_surrender_def add_card_def Hand_init_def upcard_def hole_card_def

lemmas eval_engine = sample_engine_def GameEngine_init_def Player_init_def Dealer_init_def
  py_index_def notify_def deal_def deal_card_def set_status_def


lemma py_index_SomeD: "py_index xs i = Some k \<Longrightarrow> k < length xs \<and> int k = (if i < 0 then int (length xs) + i else i)"
  by (auto simp: py_index_def Let_def split: if_splits)

lemma py_index_nonneg: "0 \<le> i \<Longrightarrow> py_index xs i = (if i < int (length xs) then Some (nat i) else None)"
  by (auto simp: py_index_def Let_def)

lemma hand_value_cards: "cards h' = cards h \<Longrightarrow> hand_value h' = hand_value h"
  by (simp add: hand_value_def)

lemma cards_add_card: "cards (add_card c h) = cards h @ [c]"
  by (simp add: add_card_def Let_def)

lemma bet_add_card: "bet (add_card c h) = bet h"
  by (simp add: add_card_def Let_def)

lemma status_add_card:
  "status (add_card c h) = (if hand_value (add_card c h) > 21 then BUSTED else status h)"
proof -
  have "hand_value (add_card c h) = hand_value (h\<lparr>cards := cards h @ [c]\<rparr>)"
    by (rule hand_value_cards) (simp add: cards_add_card)
  then show ?thesis by (simp add: add_card_def Let_def)
qed

lemma execute_double_success:
  assumes ex: "execute_action DOUBLE i e = (Inr r, e')"
    and k: "py_index (hands (player e)) i = Some k"
  shows "\<exists>c. r = Some c \<and> shoe_cards (shoe e) \<noteq> [] \<and> c = last (shoe_cards (shoe e))
           \<and> can_double (hands (player e) ! k)
           \<and> bet (hands (player e) ! k) \<le> bankroll (player e)
           \<and> hands (player e') = (hands (player e))
                [k := (add_card c (Hand_double_down ((hands (player e) ! k)
                         \<lparr>bet := bet (hands (player e) ! k) * 2\<rparr>)))\<lparr>status := STOOD\<rparr>]
           \<and> bankroll (player e') = bankroll (player e) - bet (hands (player e) ! k)"
proof -
  have kl: "k < length (hands (player e))" using k by (simp add: py_index_SomeD)
  show ?thesis
    using ex k kl
    by (auto simp: execute_action_def Player_double_down_def deal_card_def deal_def
        set_status_def notify_def Let_def split: if_splits)
qed

lemma resolve_hands_prefix:
  "\<exists>ys. fst (resolve_hands dv db hs acc p) = acc @ ys \<and> length ys = length hs"
proof (induction hs arbitrary: acc p dv db)
  case Nil
  then show ?case by simp
next
  case (Cons h hs)
  have step: "\<exists>ys. fst (resolve_hands dv db hs (acc @ [x]) q) = acc @ ys \<and> length ys = Suc (length hs)" for x q dv db
  proof -
    from Cons[of dv db "acc @ [x]" q] obtain ys where
      "fst (resolve_hands dv db hs (acc @ [x]) q) = (acc @ [x]) @ ys" "length ys = length hs" by blast
    then show ?thesis by (intro exI[of _ "x # ys"]) simp
  qed
  show ?case by (simp add: Let_def step)
qed

lemma resolve_hands_busted:
  "k < length hs \<Longrightarrow> status (hs ! k) \<noteq> SURRENDERED \<Longrightarrow> is_busted (hs ! k) \<Longrightarrow>
   fst (resolve_hands dv db hs acc p) ! (length acc + k)
     = \<lparr>hr_hand = hs ! k, result = LOSE, payout = - bet (hs ! k)\<rparr>"
proof (induction hs arbitrary: acc p k dv db)
  case Nil
  then show ?case by simp
next
  case (Cons h hs)
  show ?case
  proof (cases k)
    case 0
    have "fst (resolve_hands dv db (h # hs) acc p)
          = fst (resolve_hands dv db hs (acc @ [\<lparr>hr_hand = h, result = LOSE, payout = - bet h\<rparr>]) p)"
      using Cons.prems 0 by simp
    moreover obtain ys where "fst (resolve_hands dv db hs (acc @ [\<lparr>hr_hand = h, result = LOSE, payout = - bet h\<rparr>]) p)
        = (acc @ [\<lparr>hr_hand = h, result = LOSE, payout = - bet h\<rparr>]) @ ys"
      using resolve_hands_prefix by blast
    ultimately show ?thesis using 0 by (simp add: nth_append)
  next
    case (Suc j)
    have j: "j < length hs" "status (hs ! j) \<noteq> SURRENDERED" "is_busted (hs ! j)"
      using Cons.prems Suc by simp_all
    have "fst (resolve_hands dv db hs (acc @ [x]) q) ! (length acc + k)
          = \<lparr>hr_hand = (h # hs) ! k, result = LOSE, payout = - bet ((h # hs) ! k)\<rparr>" for x q dv db
      using Cons.IH[OF j, of dv db "acc @ [x]" q] Suc by simp
    then show ?thesis by (simp add: Let_def)
  qed
qed


lemma card_value_range: "2 \<le> card_value c \<and> card_value c \<le> 11 \<and> (card_value c = 11) = is_ace c"
  by (cases c; cases "rank c") (simp_all add: card_value_def is_ace_def)

lemma blackjack_upcard:
  assumes bj: "is_blackjack h" and u: "upcard h = Some u"
  shows "is_ace u \<or> is_ten_value u"
proof -
  from bj obtain a b where ab: "cards h = [a, b]"
    by (cases "cards h"; cases "tl (cards h)") (auto simp: is_blackjack_def)
  have ua: "u = a" using u ab by (simp add: upcard_def)
  have v: "demote (card_value a + card_value b) (length (filter is_ace [a, b])) = 21"
    using bj ab by (simp add: is_blackjack_def hand_value_def)
  show ?thesis
  proof (cases "card_value a + card_value b > 21")
    case True
    then have "card_value a = 11" using card_value_range[of a] card_value_range[of b] by linarith
    then show ?thesis using ua card_value_range[of a] by simp
  next
    case False
    then have "card_value a + card_value b = 21" using v by (simp add: demote.simps[of "card_value a + card_value b"])
    then have "card_value a = 10 \<or> card_value a = 11" using card_value_range[of a] card_value_range[of b] by linarith
    then show ?thesis using ua card_value_range[of a] by (auto simp: is_ten_value_def)
  qed
qed

lemma reveal_and_notify_simps:
  "player (reveal_and_notify e) = player e"
  "hand (dealer (reveal_and_notify e)) = hand (dealer e)"
  "blackjack_payout (reveal_and_notify e) = blackjack_payout e"
  "shoe (reveal_and_notify e) = shoe e"
  "hole_card_revealed (dealer (reveal_and_notify e))"
  by (simp_all add: reveal_and_notify_def reveal_hole_card_def notify_def Let_def split: option.splits)


section \<open>Early blackjack resolution\<close>

text \<open>
  C3. With a player hand and a dealer upcard present, \<^verbatim>\<open>check_early_blackjack\<close>
  returns a summary only when the player's first hand is a blackjack or the upcard is an
  Ace or a ten-value card. A dealer blackjack gives a push that credits the bet when the
  player has a blackjack too, and otherwise a loss of the bet with no credit. A player
  blackjack alone gives the result BLACKJACK with payout bet times \<^verbatim>\<open>blackjack_payout\<close>
  and credits the bet plus that payout. In every other case nothing is returned and the
  engine is unchanged.
\<close>

theorem check_early_blackjack_resolution:
  assumes hs: "hands (player e) = ph # rest"
    and u: "upcard (hand (dealer e)) = Some u"
    and run: "check_early_blackjack e = (r, e')"
  shows "((\<exists>s. r = Inr (Some s)) \<longrightarrow> is_blackjack ph \<or> is_ace u \<or> is_ten_value u)
    \<and> (is_blackjack (hand (dealer e)) \<and> is_blackjack ph \<longrightarrow>
         (\<exists>s. r = Inr (Some s)
              \<and> player_hands s = [\<lparr>hr_hand = ph, result = PUSH, payout = 0\<rparr>]
              \<and> total_payout s = 0)
         \<and> player e' = (player e)\<lparr>bankroll := bankroll (player e) + bet ph\<rparr>)
    \<and> (is_blackjack (hand (dealer e)) \<and> \<not> is_blackjack ph \<longrightarrow>
         (\<exists>s. r = Inr (Some s)
              \<and> player_hands s = [\<lparr>hr_hand = ph, result = LOSE, payout = - bet ph\<rparr>]
              \<and> total_payout s = - bet ph)
         \<and> player e' = player e)
    \<and> (\<not> is_blackjack (hand (dealer e)) \<and> is_blackjack ph \<longrightarrow>
         (\<exists>s. r = Inr (Some s)
              \<and> player_hands s = [\<lparr>hr_hand = ph, result = Result_BLACKJACK,
                                    payout = bet ph * blackjack_payout e\<rparr>]
              \<and> total_payout s = bet ph * blackjack_payout e)
         \<and> player e' = (player e)\<lparr>bankroll := bankroll (player e)
                                        + (bet ph + bet ph * blackjack_payout e)\<rparr>)
    \<and> (\<not> is_blackjack (hand (dealer e)) \<and> \<not> is_blackjack ph \<longrightarrow>
         r = Inr None \<and> e' = e)"
proof -
  have k: "py_index (hands (player e)) 0 = Some 0" "hands (player e) ! 0 = ph"
    using hs by (simp_all add: py_index_def)
  have peek: "is_ace u \<or> is_ten_value u" if "is_blackjack (hand (dealer e))"
    using blackjack_upcard[OF that u] .
  consider (both) "is_blackjack (hand (dealer e))" "is_blackjack ph"
    | (dealer_only) "is_blackjack (hand (dealer e))" "\<not> is_blackjack ph"
    | (player_only) "\<not> is_blackjack (hand (dealer e))" "is_blackjack ph"
    | (neither) "\<not> is_blackjack (hand (dealer e))" "\<not> is_blackjack ph"
    by blast
  then show ?thesis
  proof cases
    case both
    then show ?thesis using run k u
      by (auto simp: check_early_blackjack_def Let_def create_summary_def receive_payout_def
                     reveal_and_notify_simps split: if_splits)
  next
    case dealer_only
    then show ?thesis using run k u peek
      by (auto simp: check_early_blackjack_def Let_def create_summary_def
                     reveal_and_notify_simps split: if_splits)
  next
    case player_only
    then show ?thesis using run k u
      by (auto simp: check_early_blackjack_def Let_def create_summary_def receive_payout_def
                     reveal_and_notify_simps split: if_splits)
  next
    case neither
    then show ?thesis using run k u
      by (auto simp: check_early_blackjack_def Let_def split: if_splits)
  qed
qed

theorem check_early_blackjack_resolution_witness:
  "hands (player (sample_engine [] [Hand_init [Card ACE SPADES, Card KING DIAMONDS] 10 False]
                     [Card TEN CLUBS, Card FIVE HEARTS]))
     = [Hand_init [Card ACE SPADES, Card KING DIAMONDS] 10 False]
   \<and> upcard (hand (dealer (sample_engine [] [Hand_init [Card ACE SPADES, Card KING DIAMONDS] 10 False]
                     [Card TEN CLUBS, Card FIVE HEARTS]))) = Some (Card TEN CLUBS)
   \<and> (\<exists>s. fst (check_early_blackjack (sample_engine [] [Hand_init [Card ACE SPADES, Card KING DIAMONDS] 10 False]
                     [Card TEN CLUBS, Card FIVE HEARTS])) = Inr (Some s)
          \<and> player_hands s = [\<lparr>hr_hand = Hand_init [Card ACE SPADES, Card KING DIAMONDS] 10 False,
                                 result = Result_BLACKJACK, payout = 15\<rparr>]
          \<and> total_payout s = 15)
   \<and> bankroll (player (snd (check_early_blackjack (sample_engine [] [Hand_init [Card ACE SPADES, Card KING DIAMONDS] 10 False]
                     [Card TEN CLUBS, Card FIVE HEARTS])))) = 115"
  using check_early_blackjack_resolution[of "sample_engine [] [Hand_init [Card ACE SPADES, Card KING DIAMONDS] 10 False]
                     [Card TEN CLUBS, Card FIVE HEARTS]"
               "Hand_init [Card ACE SPADES, Card KING DIAMONDS] 10 False" "[]"
               "Card TEN CLUBS"
               "fst (check_early_blackjack (sample_engine [] [Hand_init [Card ACE SPADES, Card KING DIAMONDS] 10 False]
                     [Card TEN CLUBS, Card FIVE HEARTS]))"
               "snd (check_early_blackjack (sample_engine [] [Hand_init [Card ACE SPADES, Card KING DIAMONDS] 10 False]
                     [Card TEN CLUBS, Card FIVE HEARTS]))"]
  by (simp add: eval_hand eval_engine)


section \<open>Doubling down into a bust\<close>

text \<open>
  C10. When DOUBLE succeeds on the hand at position \<open>k\<close> and the card dealt takes the
  hand's value above 21, \<^verbatim>\<open>add_card\<close> had set BUSTED and the hand is left with status
  STOOD and twice the bet; \<^verbatim>\<open>resolve_round\<close> scores it LOSE with payout minus the
  doubled bet.
\<close>

theorem double_bust_scored_as_loss:
  assumes ex: "execute_action DOUBLE i e = (Inr r, e')"
    and k: "py_index (hands (player e)) i = Some k"
    and bust: "hand_value (hands (player e') ! k) > 21"
  shows "status (hands (player e') ! k) = STOOD
    \<and> (\<exists>c. r = Some c \<and> status (add_card c (Hand_double_down ((hands (player e) ! k)
                         \<lparr>bet := bet (hands (player e) ! k) * 2\<rparr>))) = BUSTED)
    \<and> bet (hands (player e') ! k) = 2 * bet (hands (player e) ! k)
    \<and> player_hands (fst (resolve_round e')) ! k
        = \<lparr>hr_hand = hands (player e') ! k, result = LOSE,
           payout = - (2 * bet (hands (player e) ! k))\<rparr>"
proof -
  let ?h = "hands (player e) ! k"
  have kl: "k < length (hands (player e))" using k by (simp add: py_index_SomeD)
  from execute_double_success[OF ex k] obtain c where c:
    "r = Some c"
    "hands (player e') = (hands (player e))
                [k := (add_card c (Hand_double_down (?h\<lparr>bet := bet ?h * 2\<rparr>)))\<lparr>status := STOOD\<rparr>]"
    by blast
  let ?h1 = "add_card c (Hand_double_down (?h\<lparr>bet := bet ?h * 2\<rparr>))"
  have h': "hands (player e') ! k = ?h1\<lparr>status := STOOD\<rparr>" using c kl by simp
  have v: "hand_value (?h1\<lparr>status := STOOD\<rparr>) = hand_value ?h1" by (rule hand_value_cards) simp
  have st: "status (hands (player e') ! k) = STOOD" using h' by simp
  have b1: "status ?h1 = BUSTED" using bust h' v by (simp add: status_add_card)
  have bt: "bet (hands (player e') ! k) = 2 * bet ?h" using h' by (simp add: bet_add_card Hand_double_down_def)
  have kl': "k < length (hands (player e'))" using c kl by simp
  have "fst (resolve_hands dv db (hands (player e')) [] p) ! (length ([]::HandResult list) + k)
      = \<lparr>hr_hand = hands (player e') ! k, result = LOSE, payout = - bet (hands (player e') ! k)\<rparr>" for dv db p
    using kl' st bust by (intro resolve_hands_busted) (simp_all add: is_busted_def)
  then have rr: "player_hands (fst (resolve_round e')) ! k = \<lparr>hr_hand = hands (player e') ! k, result = LOSE, payout = - bet (hands (player e') ! k)\<rparr>"
    by (simp add: resolve_round_def Let_def create_summary_def split: prod.splits) (metis fst_conv)
  show ?thesis using st c(1) b1 bt rr by simp
qed

theorem double_bust_scored_as_loss_witness:
  "fst (execute_action DOUBLE 0 (sample_engine [Card FIVE HEARTS, Card KING SPADES]
          [Hand_init [Card TEN CLUBS, Card SIX DIAMONDS] 10 False] [Card NINE HEARTS, Card EIGHT CLUBS]))
     = Inr (Some (Card KING SPADES))
   \<and> hand_value (hands (player (snd (execute_action DOUBLE 0 (sample_engine [Card FIVE HEARTS, Card KING SPADES]
          [Hand_init [Card TEN CLUBS, Card SIX DIAMONDS] 10 False] [Card NINE HEARTS, Card EIGHT CLUBS])))) ! 0) = 26
   \<and> status (hands (player (snd (execute_action DOUBLE 0 (sample_engine [Card FIVE HEARTS, Card KING SPADES]
          [Hand_init [Card TEN CLUBS, Card SIX DIAMONDS] 10 False] [Card NINE HEARTS, Card EIGHT CLUBS])))) ! 0) = STOOD
   \<and> result (player_hands (fst (resolve_round (snd (execute_action DOUBLE 0 (sample_engine [Card FIVE HEARTS, Card KING SPADES]
          [Hand_init [Card TEN CLUBS, Card SIX DIAMONDS] 10 False] [Card NINE HEARTS, Card EIGHT CLUBS]))))) ! 0) = LOSE
   \<and> payout (player_hands (fst (resolve_round (snd (execute_action DOUBLE 0 (sample_engine [Card FIVE HEARTS, Card KING SPADES]
          [Hand_init [Card TEN CLUBS, Card SIX DIAMONDS] 10 False] [Card NINE HEARTS, Card EIGHT CLUBS]))))) ! 0) = - 20"
proof -
  let ?e = "sample_engine [Card FIVE HEARTS, Card KING SPADES]
          [Hand_init [Card TEN CLUBS, Card SIX DIAMONDS] 10 False] [Card NINE HEARTS, Card EIGHT CLUBS]"
  have f: "fst (execute_action DOUBLE 0 ?e) = Inr (Some (Card KING SPADES))"
    by (simp add: execute_action_def Player_double_down_def Hand_double_down_def eval_hand eval_engine)
  then have run: "execute_action DOUBLE 0 ?e = (Inr (Some (Card KING SPADES)), snd (execute_action DOUBLE 0 ?e))"
    by (metis prod.collapse)
  have k: "py_index (hands (player ?e)) 0 = Some 0" by (simp add: eval_engine)
  have v: "hand_value (hands (player (snd (execute_action DOUBLE 0 ?e))) ! 0) = 26"
    by (simp add: execute_action_def Player_double_down_def Hand_double_down_def eval_hand eval_engine)
  have b: "bet (hands (player ?e) ! 0) = 10" by (simp add: eval_hand eval_engine)
  have "21 < hand_value (hands (player (snd (execute_action DOUBLE 0 ?e))) ! 0)" using v by simp
  from double_bust_scored_as_loss[OF run k this] show ?thesis using f v b by simp
qed

section \<open>Splitting\<close>

lemma py_insert_after_update:
  assumes "k < length xs"
  shows "py_insert_pos (xs[k := a]) (int k + 1) = Suc k"
    and "py_insert (int k + 1) b (xs[k := a]) = take k xs @ [a, b] @ drop (Suc k) xs"
proof -
  show pos: "py_insert_pos (xs[k := a]) (int k + 1) = Suc k"
    using assms by (simp add: py_insert_pos_def Let_def min_def nat_add_distrib)
  have "take (Suc k) (xs[k := a]) = take k xs @ [a]"
    using assms by (simp add: take_Suc_conv_app_nth)
  moreover have "drop (Suc k) (xs[k := a]) = drop (Suc k) xs" by simp
  ultimately show "py_insert (int k + 1) b (xs[k := a]) = take k xs @ [a, b] @ drop (Suc k) xs"
    using pos by (simp add: py_insert_def)
qed


text \<open>
  C5. For a position \<open>i\<close> counted from the front, \<^verbatim>\<open>split_hand(i)\<close> fails exactly
  when the split count has reached \<^verbatim>\<open>max_splits\<close>, or there is no splittable ACTIVE
  pair at position \<open>i\<close>, or the hand's bet exceeds the bankroll. Otherwise the bankroll
  goes down by the hand's bet, the hand is replaced by two ACTIVE one-card hands with that
  bet and \<^verbatim>\<open>is_split_hand\<close> set, the second right after the first and the other hands
  in their order, and the split count goes up by one.
\<close>

theorem split_hand_spec:
  assumes i: "0 \<le> i" and run: "split_hand i p = (r, p')"
  shows "((\<exists>err. r = Inl err) =
            (split_count p \<ge> max_splits p
             \<or> \<not> (nat i < length (hands p) \<and> Hand_can_split (hands p ! nat i))
             \<or> bet (hands p ! nat i) > bankroll p))
     \<and> (\<forall>k1 k2. r = Inr (k1, k2) \<longrightarrow>
           bankroll p' = bankroll p - bet (hands p ! nat i)
           \<and> hands p' = take (nat i) (hands p)
                 @ [Hand_init [cards (hands p ! nat i) ! 0] (bet (hands p ! nat i)) True,
                    Hand_init [cards (hands p ! nat i) ! 1] (bet (hands p ! nat i)) True]
                 @ drop (Suc (nat i)) (hands p)
           \<and> k1 = nat i \<and> k2 = Suc (nat i)
           \<and> split_count p' = split_count p + 1
           \<and> max_splits p' = max_splits p \<and> base_bet p' = base_bet p)"
proof -
  from i obtain k where ik: "i = int k" using nonneg_int_cases by blast
  show ?thesis
  proof (cases "k < length (hands p)")
    case False
    then have "py_index (hands p) i = None" using ik by (simp add: py_index_nonneg)
    then show ?thesis using run False ik by (auto simp: split_hand_def split: if_splits)
  next
    case True
    then have k: "py_index (hands p) (int k) = Some k" by (simp add: py_index_nonneg)
    show ?thesis
      using run k True unfolding ik
      by (auto simp: split_hand_def Hand_split_def Let_def py_insert_after_update
               split: if_splits)
  qed
qed


theorem split_hand_spec_witness:
  "(0::int) \<le> 1
   \<and> fst (split_hand 1 (Player_init 90
        [Hand_init [Card TEN SPADES, Card NINE SPADES] 10 True,
         Hand_init [Card EIGHT CLUBS, Card EIGHT DIAMONDS] 10 True,
         Hand_init [Card TWO HEARTS, Card THREE HEARTS] 10 True] 10 3 1)) = Inr (1, 2)
   \<and> hands (snd (split_hand 1 (Player_init 90
        [Hand_init [Card TEN SPADES, Card NINE SPADES] 10 True,
         Hand_init [Card EIGHT CLUBS, Card EIGHT DIAMONDS] 10 True,
         Hand_init [Card TWO HEARTS, Card THREE HEARTS] 10 True] 10 3 1)))
      = [Hand_init [Card TEN SPADES, Card NINE SPADES] 10 True,
         Hand_init [Card EIGHT CLUBS] 10 True,
         Hand_init [Card EIGHT DIAMONDS] 10 True,
         Hand_init [Card TWO HEARTS, Card THREE HEARTS] 10 True]
   \<and> bankroll (snd (split_hand 1 (Player_init 90
        [Hand_init [Card TEN SPADES, Card NINE SPADES] 10 True,
         Hand_init [Card EIGHT CLUBS, Card EIGHT DIAMONDS] 10 True,
         Hand_init [Card TWO HEARTS, Card THREE HEARTS] 10 True] 10 3 1))) = 80
   \<and> split_count (snd (split_hand 1 (Player_init 90
        [Hand_init [Card TEN SPADES, Card NINE SPADES] 10 True,
         Hand_init [Card EIGHT CLUBS, Card EIGHT DIAMONDS] 10 True,
         Hand_init [Card TWO HEARTS, Card THREE HEARTS] 10 True] 10 3 1))) = 2"
proof -
  let ?p = "Player_init 90
        [Hand_init [Card TEN SPADES, Card NINE SPADES] 10 True,
         Hand_init [Card EIGHT CLUBS, Card EIGHT DIAMONDS] 10 True,
         Hand_init [Card TWO HEARTS, Card THREE HEARTS] 10 True] 10 3 1"
  have f: "fst (split_hand 1 ?p) = Inr (1, 2)"
    by (simp add: split_hand_def Hand_split_def py_insert_pos_def Player_init_def
                  py_index_def eval_hand)
  have run: "split_hand 1 ?p = (fst (split_hand 1 ?p), snd (split_hand 1 ?p))" by simp
  have i: "(0::int) \<le> 1" by simp
  from split_hand_spec[OF i run, THEN conjunct2, rule_format, OF f]
  show ?thesis using f by (simp add: Hand_init_def Player_init_def)
qed


section \<open>Failed calls leave no trace\<close>

lemma deal_card_error: "deal_card k f e = (Inl err, e') \<Longrightarrow> err = ShoeExhausted"
  by (auto simp: deal_card_def deal_def Let_def split: if_splits)

lemma new_hand_atomic: "Player_new_hand b p = (Inl err, p') \<Longrightarrow> p' = p"
  by (auto simp: Player_new_hand_def Let_def split: if_splits)

lemma split_hand_atomic: "split_hand i p = (Inl err, p') \<Longrightarrow> p' = p"
  by (auto simp: split_hand_def Hand_split_def Let_def split: if_splits option.splits)

lemma double_down_atomic: "Player_double_down i p = (Inl err, p') \<Longrightarrow> p' = p"
  by (auto simp: Player_double_down_def Let_def split: if_splits option.splits)

lemma surrender_hand_atomic: "surrender_hand i p = (Inl err, p') \<Longrightarrow> p' = p"
  by (auto simp: surrender_hand_def Let_def split: if_splits option.splits)

lemma execute_action_atomic:
  assumes run: "execute_action a i e = (Inl err, e')" and err: "err \<noteq> ShoeExhausted"
  shows "e' = e"
proof (cases "py_index (hands (player e)) i")
  case None
  then show ?thesis using run by (simp add: execute_action_def)
next
  case (Some k)
  show ?thesis
  proof (cases a)
    case HIT
    then show ?thesis using run Some err
      by (auto simp: execute_action_def Let_def split: if_splits prod.splits sum.splits dest: deal_card_error)
  next
    case STAND
    then show ?thesis using run Some by (auto simp: execute_action_def Let_def split: if_splits)
  next
    case DOUBLE
    then show ?thesis using run Some err
      by (auto simp: execute_action_def Let_def split: if_splits prod.splits sum.splits
               dest: deal_card_error double_down_atomic)
  next
    case SPLIT
    then show ?thesis using run Some err
      by (auto simp: execute_action_def Let_def split: if_splits prod.splits sum.splits
               dest: deal_card_error split_hand_atomic)
  next
    case SURRENDER
    then show ?thesis using run Some
      by (auto simp: execute_action_def Let_def split: if_splits prod.splits sum.splits
               dest: surrender_hand_atomic)
  qed
qed


text \<open>
  C4. When \<^verbatim>\<open>execute_action\<close> raises anything but the exhaustion of the shoe, and
  when \<^verbatim>\<open>new_hand\<close>, \<^verbatim>\<open>split_hand\<close>, \<^verbatim>\<open>double_down\<close> or \<^verbatim>\<open>surrender_hand\<close>
  raises, the engine or the player is exactly as before the call: shoe, bankroll, list
  of hands and every hand in it.
\<close>

theorem failure_is_atomic:
  "(execute_action a i e = (Inl err, e') \<and> err \<noteq> ShoeExhausted \<longrightarrow> e' = e)
   \<and> (Player_new_hand b p = (Inl err, p') \<longrightarrow> p' = p)
   \<and> (split_hand i p = (Inl err, p') \<longrightarrow> p' = p)
   \<and> (Player_double_down i p = (Inl err, p') \<longrightarrow> p' = p)
   \<and> (surrender_hand i p = (Inl err, p') \<longrightarrow> p' = p)"
proof (intro conjI impI)
  show "e' = e" if "execute_action a i e = (Inl err, e') \<and> err \<noteq> ShoeExhausted"
    using that execute_action_atomic by blast
  show "p' = p" if "Player_new_hand b p = (Inl err, p')" using that by (rule new_hand_atomic)
  show "p' = p" if "split_hand i p = (Inl err, p')" using that by (rule split_hand_atomic)
  show "p' = p" if "Player_double_down i p = (Inl err, p')"
    using that by (rule double_down_atomic)
  show "p' = p" if "surrender_hand i p = (Inl err, p')"
    using that by (rule surrender_hand_atomic)
qed

theorem failure_is_atomic_witness:
  "fst (execute_action HIT 0 (sample_engine [Card FIVE HEARTS]
          [stand (Hand_init [Card TEN CLUBS, Card NINE DIAMONDS] 10 False)]
          [Card NINE HEARTS, Card EIGHT CLUBS])) = Inl IllegalAction
   \<and> snd (execute_action HIT 0 (sample_engine [Card FIVE HEARTS]
          [stand (Hand_init [Card TEN CLUBS, Card NINE DIAMONDS] 10 False)]
          [Card NINE HEARTS, Card EIGHT CLUBS]))
      = sample_engine [Card FIVE HEARTS]
          [stand (Hand_init [Card TEN CLUBS, Card NINE DIAMONDS] 10 False)]
          [Card NINE HEARTS, Card EIGHT CLUBS]
   \<and> fst (Player_double_down 0 (Player_init 90
          [Hand_init [Card FIVE CLUBS, Card SIX DIAMONDS] 100 False] 10 3 0))
      = Inl InsufficientFunds
   \<and> snd (Player_double_down 0 (Player_init 90
          [Hand_init [Card FIVE CLUBS, Card SIX DIAMONDS] 100 False] 10 3 0))
      = Player_init 90 [Hand_init [Card FIVE CLUBS, Card SIX DIAMONDS] 100 False] 10 3 0
   \<and> fst (split_hand 0 (Player_init 90
          [Hand_init [Card EIGHT CLUBS, Card EIGHT DIAMONDS] 10 True] 10 3 3))
      = Inl SplitBudgetExceeded
   \<and> snd (split_hand 0 (Player_init 90
          [Hand_init [Card EIGHT CLUBS, Card EIGHT DIAMONDS] 10 True] 10 3 3))
      = Player_init 90 [Hand_init [Card EIGHT CLUBS, Card EIGHT DIAMONDS] 10 True] 10 3 3"
proof -
  let ?e = "sample_engine [Card FIVE HEARTS]
          [stand (Hand_init [Card TEN CLUBS, Card NINE DIAMONDS] 10 False)]
          [Card NINE HEARTS, Card EIGHT CLUBS]"
  let ?pd = "Player_init 90 [Hand_init [Card FIVE CLUBS, Card SIX DIAMONDS] 100 False] 10 3 0"
  let ?ps = "Player_init 90 [Hand_init [Card EIGHT CLUBS, Card EIGHT DIAMONDS] 10 True] 10 3 3"
  have f1: "fst (execute_action HIT 0 ?e) = Inl IllegalAction"
    by (simp add: execute_action_def stand_def eval_engine eval_hand)
  have f2: "fst (Player_double_down 0 ?pd) = Inl InsufficientFunds"
    by (simp add: Player_double_down_def Player_init_def py_index_def eval_hand)
  have f3: "fst (split_hand 0 ?ps) = Inl SplitBudgetExceeded"
    by (simp add: split_hand_def Player_init_def)
  have r1: "execute_action HIT 0 ?e = (Inl IllegalAction, snd (execute_action HIT 0 ?e))
            \<and> IllegalAction \<noteq> ShoeExhausted"
    using f1 by (metis prod.collapse error.distinct(5))
  have r2: "Player_double_down 0 ?pd = (Inl InsufficientFunds, snd (Player_double_down 0 ?pd))"
    using f2 by (metis prod.collapse)
  have r3: "split_hand 0 ?ps = (Inl SplitBudgetExceeded, snd (split_hand 0 ?ps))"
    using f3 by (metis prod.collapse)
  have a: "snd (execute_action HIT 0 ?e) = ?e"
    using failure_is_atomic[THEN conjunct1, rule_format, OF r1] .
  have b: "snd (Player_double_down 0 ?pd) = ?pd"
    using failure_is_atomic[THEN conjunct2, THEN conjunct2, THEN conjunct2, THEN conjunct1,
                            rule_format, OF r2] .
  have c: "snd (split_hand 0 ?ps) = ?ps"
    using failure_is_atomic[THEN conjunct2, THEN conjunct2, THEN conjunct1, rule_format, OF r3] .
  show ?thesis using f1 f2 f3 a b c by simp
qed

section \<open>Construction stores the configuration as given\<close>

text \<open>
  C9, as the code has it. The constructors keep every configuration value unchanged:
  the shoe its penetration (also through the first shuffle), the player the bankroll,
  base bet and maximum number of splits, the dealer the rule, the engine the blackjack
  payout; and the components built from a configuration carry the configuration's values.
  No value is rejected and none is clamped.
\<close>

theorem construction_stores_arguments:
  "penetration (Shoe_init rnd pen cs n) = pen
   \<and> bankroll (Player_init br hs bb ms sc) = br
   \<and> base_bet (Player_init br hs bb ms sc) = bb
   \<and> max_splits (Player_init br hs bb ms sc) = ms
   \<and> rule (Dealer_init h r shown) = r
   \<and> blackjack_payout (GameEngine_init s p d cb bp) = bp
   \<and> config_penetration (GameConfig_init r pen bp das sur ms ra) = pen
   \<and> config_blackjack_payout (GameConfig_init r pen bp das sur ms ra) = bp
   \<and> config_max_splits (GameConfig_init r pen bp das sur ms ra) = ms
   \<and> penetration (shoe (full_play_engine rnd game training)) = config_penetration game
   \<and> bankroll (player (full_play_engine rnd game training)) = starting_bankroll training
   \<and> base_bet (player (full_play_engine rnd game training)) = config_base_bet training
   \<and> rule (dealer (full_play_engine rnd game training)) = dealer_rule game"
  by (simp add: Shoe_init_def shuffle_def Player_init_def Dealer_init_def GameEngine_init_def
                GameConfig_init_def full_play_engine_def Let_def)

text \<open>
  A penetration of 3/2 lies outside the interval from 0 to 1, and so does a maximum of
  -1 splits below any count; the shoe and the player are built all the same and hold
  exactly these values.
\<close>

theorem construction_validates_counterexample:
  "\<not> (0 \<le> (3 / 2 :: real) \<and> (3 / 2 :: real) \<le> 1)
   \<and> penetration (Shoe_init no_draws (3 / 2) [] 0) = 3 / 2
   \<and> length (shoe_cards (Shoe_init no_draws (3 / 2) [] 0)) = 52
   \<and> max_splits (Player_init 1000 [] 10 (- 1) 0) = - 1
   \<and> penetration (shoe (full_play_engine no_draws
         (GameConfig_init H17 (3 / 2) (3 / 2) True True 3 True)
         \<lparr>cards_per_drill = 3, count_quiz_frequency = 3 / 10, show_true_count = False,
          show_correct_action = True, auto_advance_delay_ms = 0,
          starting_bankroll = 1000, config_base_bet = 10\<rparr>)) = 3 / 2"
proof -
  have "length (shoe_cards (shuffle no_draws s)) = 52" for s
    using mset_shuffle[of no_draws s] length_create_deck by (metis mset_eq_length)
  then show ?thesis
    by (simp add: Shoe_init_def Player_init_def GameEngine_init_def GameConfig_init_def
                  full_play_engine_def Let_def shuffle_def)
qed

section \<open>What the engine does to hands that are no longer active\<close>

lemma non_active_rejected:
  assumes k: "py_index (hands (player e)) i = Some k"
    and st: "status (hands (player e) ! k) \<noteq> ACTIVE"
  shows "execute_action a i e = (Inl IllegalAction, e)"
  using k st
  by (cases a)
     (simp_all add: execute_action_def can_hit_def can_stand_def can_double_def
                    Hand_can_split_def can_surrender_def)

lemma deal_card_others:
  "deal_card k f e = (r, e') \<Longrightarrow>
   length (hands (player e')) = length (hands (player e))
   \<and> (\<forall>j. j \<noteq> k \<longrightarrow> hands (player e') ! j = hands (player e) ! j)
   \<and> dealer e' = dealer e"
  by (auto simp: deal_card_def deal_def notify_def Let_def split: if_splits)

lemma double_down_others:
  "Player_double_down i p = (r, p') \<Longrightarrow> py_index (hands p) i = Some k \<Longrightarrow>
   length (hands p') = length (hands p) \<and> (\<forall>j. j \<noteq> k \<longrightarrow> hands p' ! j = hands p ! j)"
  by (auto simp: Player_double_down_def Let_def split: if_splits)

lemma surrender_hand_others:
  "surrender_hand i p = (r, p') \<Longrightarrow> py_index (hands p) i = Some k \<Longrightarrow>
   length (hands p') = length (hands p) \<and> (\<forall>j. j \<noteq> k \<longrightarrow> hands p' ! j = hands p ! j)"
  by (auto simp: surrender_hand_def Let_def split: if_splits)

lemma execute_action_others:
  assumes k: "py_index (hands (player e)) i = Some k"
    and run: "execute_action a i e = (r, e')"
    and a: "a \<noteq> SPLIT"
  shows "length (hands (player e')) = length (hands (player e))
         \<and> (\<forall>j. j \<noteq> k \<longrightarrow> hands (player e') ! j = hands (player e) ! j)"
proof (cases a)
  case HIT
  then show ?thesis using run k
    by (auto simp: execute_action_def Let_def split: if_splits prod.splits sum.splits
             dest!: deal_card_others)
next
  case STAND
  then show ?thesis using run k
    by (auto simp: execute_action_def Let_def split: if_splits)
next
  case DOUBLE
  show ?thesis
  proof (cases "can_double (hands (player e) ! k)")
    case False
    then show ?thesis using run k DOUBLE by (auto simp: execute_action_def Let_def)
  next
    case True
    obtain r1 p1 where dd: "Player_double_down i (player e) = (r1, p1)" by (cases "Player_double_down i (player e)")
    note o1 = double_down_others[OF dd k]
    show ?thesis
    proof (cases r1)
      case (Inl err)
      then show ?thesis using run k DOUBLE True dd o1 by (auto simp: execute_action_def Let_def)
    next
      case (Inr u)
      obtain r2 e2 where dc: "deal_card k True (e\<lparr>player := p1\<rparr>) = (r2, e2)" by (cases "deal_card k True (e\<lparr>player := p1\<rparr>)")
      note o2 = deal_card_others[OF dc]
      show ?thesis using run k DOUBLE True dd o1 Inr dc o2
        by (cases r2) (auto simp: execute_action_def Let_def set_status_def)
    qed
  qed
next
  case SPLIT
  then show ?thesis using a by simp
next
  case SURRENDER
  show ?thesis
  proof (cases "can_surrender (hands (player e) ! k)")
    case False
    then show ?thesis using run k SURRENDER by (auto simp: execute_action_def Let_def)
  next
    case True
    obtain r1 p1 where dd: "surrender_hand i (player e) = (r1, p1)" by (cases "surrender_hand i (player e)")
    note o1 = surrender_hand_others[OF dd k]
    show ?thesis using run k SURRENDER True dd o1
      by (cases r1) (auto simp: execute_action_def Let_def)
  qed
qed

lemma split_hand_success:
  assumes i: "0 \<le> i" and run: "split_hand i p = (Inr (k1, k2), p')"
  shows "k1 = nat i \<and> k2 = Suc (nat i) \<and> nat i < length (hands p)
     \<and> hands p' = take (nat i) (hands p)
           @ [Hand_init [cards (hands p ! nat i) ! 0] (bet (hands p ! nat i)) True,
              Hand_init [cards (hands p ! nat i) ! 1] (bet (hands p ! nat i)) True]
           @ drop (Suc (nat i)) (hands p)"
proof -
  from i obtain k where ik: "i = int k" using nonneg_int_cases by blast
  show ?thesis
  proof (cases "k < length (hands p)")
    case False
    then have "py_index (hands p) i = None" using ik by (simp add: py_index_nonneg)
    then show ?thesis using run by (auto simp: split_hand_def split: if_splits)
  next
    case True
    then have k: "py_index (hands p) (int k) = Some k" by (simp add: py_index_nonneg)
    show ?thesis
      using run k True unfolding ik
      by (auto simp: split_hand_def Hand_split_def Let_def py_insert_after_update
               split: if_splits)
  qed
qed

lemma take_unchanged:
  assumes "length ys = length xs" and "\<forall>j. j < k \<longrightarrow> ys ! j = xs ! j"
  shows "take k ys = take k xs"
  using assms by (intro nth_equalityI) simp_all

lemma drop_unchanged:
  assumes "length ys = length xs" and "\<forall>j. m \<le> j \<longrightarrow> ys ! j = xs ! j"
  shows "drop m ys = drop m xs"
  using assms by (intro nth_equalityI) simp_all

lemma execute_split_others:
  assumes i: "0 \<le> i" and k: "py_index (hands (player e)) i = Some k"
    and run: "execute_action SPLIT i e = (r, e')"
  shows "hands (player e') = hands (player e)
         \<or> (take k (hands (player e')) = take k (hands (player e))
            \<and> drop (k + 2) (hands (player e')) = drop (k + 1) (hands (player e)))"
proof (cases "Hand_can_split (hands (player e) ! k)")
  case False
  then show ?thesis using run k by (auto simp: execute_action_def Let_def)
next
  case True
  have kn: "k = nat i" using k i by (simp add: py_index_nonneg split: if_splits)
  obtain rs p1 where sp: "split_hand i (player e) = (rs, p1)" by (cases "split_hand i (player e)")
  show ?thesis
  proof (cases rs)
    case (Inl err)
    then have "p1 = player e" using sp split_hand_atomic by blast
    then show ?thesis using run k True sp Inl by (auto simp: execute_action_def Let_def)
  next
    case (Inr ks)
    obtain k1 k2 where ks: "ks = (k1, k2)" by (cases ks)
    from split_hand_success[OF i sp[unfolded Inr ks]] kn
    have kk: "k1 = k" "k2 = Suc k" "k < length (hands (player e))"
      and hs: "hands p1 = take k (hands (player e))
           @ [Hand_init [cards (hands (player e) ! k) ! 0] (bet (hands (player e) ! k)) True,
              Hand_init [cards (hands (player e) ! k) ! 1] (bet (hands (player e) ! k)) True]
           @ drop (Suc k) (hands (player e))"
      by simp_all
    have t1: "take k (hands p1) = take k (hands (player e))" using hs kk by simp
    have d1: "drop (k + 2) (hands p1) = drop (k + 1) (hands (player e))" using hs kk by simp
    obtain r2 e2 where dc1: "deal_card k True (e\<lparr>player := p1\<rparr>) = (r2, e2)"
      by (cases "deal_card k True (e\<lparr>player := p1\<rparr>)")
    note o2 = deal_card_others[OF dc1]
    have t2: "take k (hands (player e2)) = take k (hands p1)"
      using o2 by (intro take_unchanged) simp_all
    have d2: "drop (k + 2) (hands (player e2)) = drop (k + 2) (hands p1)"
      using o2 by (intro drop_unchanged) simp_all
    show ?thesis
    proof (cases r2)
      case (Inl err)
      then have "e' = e2" using run k True sp Inr ks kk dc1 by (auto simp: execute_action_def Let_def)
      then show ?thesis using t1 d1 t2 d2 by simp
    next
      case c1: (Inr c1)
      obtain r3 e3 where dc2: "deal_card (Suc k) True e2 = (r3, e3)"
        by (cases "deal_card (Suc k) True e2")
      note o3 = deal_card_others[OF dc2]
      have t3: "take k (hands (player e3)) = take k (hands (player e2))"
        using o3 by (intro take_unchanged) simp_all
      have d3: "drop (k + 2) (hands (player e3)) = drop (k + 2) (hands (player e2))"
        using o3 by (intro drop_unchanged) simp_all
      have "e' = e3" using run k True sp Inr ks kk dc1 c1 dc2
        by (cases r3) (auto simp: execute_action_def Let_def)
      then show ?thesis using t1 d1 t2 d2 t3 d3 by simp
    qed
  qed
qed

lemma receive_card_simps:
  "rule (receive_card c f d) = rule d"
  "hole_card_revealed (receive_card c f d) = hole_card_revealed d"
  "hand (receive_card c f d) = add_card c (hand d)"
  by (simp_all add: receive_card_def)

lemma deal_callback_frame:
  "deal_callback e = (r, e') \<Longrightarrow>
     player e' = player e \<and> rule (dealer e') = rule (dealer e)
     \<and> hole_card_revealed (dealer e') = hole_card_revealed (dealer e)"
  by (auto simp: deal_callback_def deal_def notify_def receive_card_simps split: if_splits)

lemma dealer_play_loop_stop:
  "\<not> (should_hit (dealer e) \<and> \<not> is_busted (hand (dealer e)))
   \<Longrightarrow> dealer_play_loop e = (Inr (), e)"
  by (subst dealer_play_loop.simps) auto

lemma dealer_play_loop_step:
  "should_hit (dealer e) \<and> \<not> is_busted (hand (dealer e))
   \<Longrightarrow> dealer_play_loop e =
       (case deal_callback e of
          (Inl err, e1) \<Rightarrow> (Inl err, e1)
        | (Inr c, e1) \<Rightarrow> dealer_play_loop (e1\<lparr>dealer := receive_card c True (dealer e1)\<rparr>))"
  by (subst dealer_play_loop.simps) simp

lemma dealer_play_loop_frame:
  "player (snd (dealer_play_loop e)) = player e
   \<and> rule (dealer (snd (dealer_play_loop e))) = rule (dealer e)
   \<and> hole_card_revealed (dealer (snd (dealer_play_loop e))) = hole_card_revealed (dealer e)"
proof (induction e rule: dealer_play_loop.induct)
  case (1 e)
  show ?case
  proof (cases "should_hit (dealer e) \<and> \<not> is_busted (hand (dealer e))")
    case False
    then show ?thesis by (simp add: dealer_play_loop_stop)
  next
    case True
    obtain r e1 where dc: "deal_callback e = (r, e1)" by (cases "deal_callback e")
    note fr = deal_callback_frame[OF dc]
    show ?thesis
    proof (cases r)
      case (Inl err)
      then show ?thesis using True dc fr by (simp add: dealer_play_loop_step)
    next
      case (Inr c)
      from 1[OF True dc[symmetric] Inr] True dc Inr fr
      show ?thesis by (simp add: dealer_play_loop_step receive_card_simps)
    qed
  qed
qed

lemma dealer_play_loop_exit:
  "fst (dealer_play_loop e) = Inr u \<Longrightarrow>
   \<not> (should_hit (dealer (snd (dealer_play_loop e)))
      \<and> \<not> is_busted (hand (dealer (snd (dealer_play_loop e)))))"
proof (induction e rule: dealer_play_loop.induct)
  case (1 e)
  show ?case
  proof (cases "should_hit (dealer e) \<and> \<not> is_busted (hand (dealer e))")
    case False
    then show ?thesis by (simp add: dealer_play_loop_stop)
  next
    case True
    obtain r e1 where dc: "deal_callback e = (r, e1)" by (cases "deal_callback e")
    show ?thesis
    proof (cases r)
      case (Inl err)
      then show ?thesis using True dc "1.prems" by (simp add: dealer_play_loop_step)
    next
      case (Inr c)
      from 1(1)[OF True dc[symmetric] Inr] True dc Inr "1.prems"
      show ?thesis by (simp add: dealer_play_loop_step)
    qed
  qed
qed

lemma should_hit_cards:
  "cards (hand d') = cards (hand d) \<Longrightarrow> rule d' = rule d \<Longrightarrow> should_hit d' = should_hit d"
  using soft_value_cards[of "hand d'" "hand d"] by (simp add: should_hit_def)

lemma is_busted_cards: "cards h' = cards h \<Longrightarrow> is_busted h' = is_busted h"
  using hand_value_cards[of h' h] by (simp add: is_busted_def)

lemma play_dealer_player: "player (snd (play_dealer e)) = player e"
proof -
  let ?e0 = "if \<not> hole_card_revealed (dealer (reveal_and_notify e))
             then (reveal_and_notify e)\<lparr>dealer := snd (reveal_hole_card (dealer (reveal_and_notify e)))\<rparr>
             else reveal_and_notify e"
  have "player (snd (dealer_play_loop ?e0)) = player ?e0" using dealer_play_loop_frame by blast
  moreover have "player ?e0 = player e" by (simp add: reveal_and_notify_simps)
  ultimately show ?thesis
    by (cases "dealer_play_loop ?e0"; cases "fst (dealer_play_loop ?e0)")
       (auto simp: play_dealer_def Dealer_play_def Let_def reveal_and_notify_simps)
qed

lemma play_dealer_again:
  assumes run: "play_dealer e = (Inr u, e1)"
  shows "hand (dealer (snd (play_dealer e1))) = hand (dealer e1)
         \<and> fst (play_dealer e1) = Inr ()"
proof -
  let ?e0 = "reveal_and_notify e"
  have rev0: "hole_card_revealed (dealer ?e0)" by (simp add: reveal_and_notify_simps)
  obtain r2 e2 where lp: "dealer_play_loop ?e0 = (r2, e2)" by (cases "dealer_play_loop ?e0")
  have r2: "r2 = Inr ()" using run lp rev0
    by (cases r2) (auto simp: play_dealer_def Dealer_play_def Let_def)
  let ?st = "if \<not> is_busted (hand (dealer e2)) then STOOD else BUSTED"
  have e1: "e1 = e2\<lparr>dealer := (dealer e2)\<lparr>hand := (hand (dealer e2))\<lparr>status := ?st\<rparr>\<rparr>\<rparr>"
    using run lp rev0 r2 by (auto simp: play_dealer_def Dealer_play_def Let_def)
  have ex: "\<not> (should_hit (dealer e2) \<and> \<not> is_busted (hand (dealer e2)))"
    using dealer_play_loop_exit[of ?e0 "()"] lp r2 by simp
  let ?f = "reveal_and_notify e1"
  have hf: "hand (dealer ?f) = hand (dealer e1)" by (simp add: reveal_and_notify_simps)
  have rf: "rule (dealer ?f) = rule (dealer e2)"
    using e1 by (simp add: reveal_and_notify_def reveal_hole_card_def notify_def Let_def split: option.splits)
  have cf: "cards (hand (dealer ?f)) = cards (hand (dealer e2))" using hf e1 by simp
  have stop: "\<not> (should_hit (dealer ?f) \<and> \<not> is_busted (hand (dealer ?f)))"
    using ex should_hit_cards[OF cf rf] is_busted_cards[OF cf] by simp
  then have lf: "dealer_play_loop ?f = (Inr (), ?f)" by (rule dealer_play_loop_stop)
  have revf: "hole_card_revealed (dealer ?f)" by (simp add: reveal_and_notify_simps)
  have bf: "is_busted (hand (dealer ?f)) = is_busted (hand (dealer e2))" using is_busted_cards[OF cf] .
  have "status (hand (dealer e1)) = ?st" using e1 by simp
  then show ?thesis using lf revf hf bf
    by (auto simp: play_dealer_def Dealer_play_def Let_def)
qed

lemma resolve_hands_player:
  "hands (snd (resolve_hands dv db hs acc p)) = hands p"
  by (induction hs arbitrary: acc p dv db) (simp_all add: Let_def receive_payout_def)

lemma resolve_round_hands: "hands (player (snd (resolve_round e))) = hands (player e)"
proof -
  obtain rs p where rh: "resolve_hands (hand_value (hand (dealer e))) (is_busted (hand (dealer e)))
                           (hands (player e)) [] (player e) = (rs, p)"
    by (cases "resolve_hands (hand_value (hand (dealer e))) (is_busted (hand (dealer e)))
                 (hands (player e)) [] (player e)")
  then have "hands p = hands (player e)"
    using resolve_hands_player[of "hand_value (hand (dealer e))" "is_busted (hand (dealer e))"
                                  "hands (player e)" "[]" "player e"] by simp
  then show ?thesis using rh by (simp add: resolve_round_def Let_def)
qed

lemma check_early_blackjack_hands:
  "hands (player (snd (check_early_blackjack e))) = hands (player e)"
  by (simp add: check_early_blackjack_def Let_def reveal_and_notify_simps receive_payout_def
           split: option.splits)

lemma double_down_success_hand:
  assumes k: "py_index (hands p) i = Some k"
    and cd: "can_double (hands p ! k)" and b: "bet (hands p ! k) \<le> bankroll p"
  shows "hands (snd (Player_double_down i p)) ! k
           = Hand_double_down ((hands p ! k)\<lparr>bet := bet (hands p ! k) * 2\<rparr>)"
proof -
  have "k < length (hands p)" using k by (simp add: py_index_SomeD)
  then show ?thesis using k cd b by (simp add: Player_double_down_def Let_def)
qed


text \<open>
  C2, as the code has it by design. Let \<open>k\<close> be the position the index \<open>i\<close> denotes.
  A hand that is not ACTIVE rejects every action, and the engine is unchanged. An action
  other than SPLIT leaves every other hand as it is, and a SPLIT at a position counted
  from the front leaves the hands before and after the split pair as they are.
  \<^verbatim>\<open>check_early_blackjack\<close>, \<^verbatim>\<open>play_dealer\<close> and \<^verbatim>\<open>resolve_round\<close> leave the
  player's hands as they are, and \<^verbatim>\<open>play_dealer\<close> leaves a dealer hand it has already
  played as it is. The exceptions are the bust detection of \<^verbatim>\<open>add_card\<close>, and DOUBLE:
  the hand marked DOUBLED receives exactly one card and, when that card does not bust it,
  is then set to STOOD.
\<close>

theorem non_active_hands_are_left_alone:
  assumes k: "py_index (hands (player e)) i = Some k"
    and run: "execute_action a i e = (r, e')"
  shows
  "(status (hands (player e) ! k) \<noteq> ACTIVE \<longrightarrow> r = Inl IllegalAction \<and> e' = e)
   \<and> (a \<noteq> SPLIT \<longrightarrow>
        length (hands (player e')) = length (hands (player e))
        \<and> (\<forall>j. j \<noteq> k \<longrightarrow> hands (player e') ! j = hands (player e) ! j))
   \<and> (a = SPLIT \<and> 0 \<le> i \<longrightarrow>
        hands (player e') = hands (player e)
        \<or> (take k (hands (player e')) = take k (hands (player e))
           \<and> drop (k + 2) (hands (player e')) = drop (k + 1) (hands (player e))))
   \<and> (a = DOUBLE \<longrightarrow>
        (\<forall>c. r = Inr (Some c) \<longrightarrow>
           status (hands (snd (Player_double_down i (player e))) ! k) = DOUBLED
           \<and> cards (hands (player e') ! k) = cards (hands (player e) ! k) @ [c]
           \<and> (\<not> is_busted (hands (player e') ! k) \<longrightarrow>
                hands (player e') ! k
                  = (add_card c (hands (snd (Player_double_down i (player e))) ! k))
                      \<lparr>status := STOOD\<rparr>)))
   \<and> status (add_card c' h) = (if hand_value (add_card c' h) > 21 then BUSTED else status h)
   \<and> hands (player (snd (check_early_blackjack e))) = hands (player e)
   \<and> hands (player (snd (play_dealer e))) = hands (player e)
   \<and> hands (player (snd (resolve_round e))) = hands (player e)
   \<and> (\<forall>u e1. play_dealer e = (Inr u, e1) \<longrightarrow>
        hand (dealer (snd (play_dealer e1))) = hand (dealer e1))"
proof -
  have c1: "r = Inl IllegalAction \<and> e' = e" if "status (hands (player e) ! k) \<noteq> ACTIVE"
    using non_active_rejected[OF k that, of a] run by simp
  have c2: "length (hands (player e')) = length (hands (player e))
        \<and> (\<forall>j. j \<noteq> k \<longrightarrow> hands (player e') ! j = hands (player e) ! j)" if "a \<noteq> SPLIT"
    using execute_action_others[OF k run that] .
  have c3: "hands (player e') = hands (player e)
        \<or> (take k (hands (player e')) = take k (hands (player e))
           \<and> drop (k + 2) (hands (player e')) = drop (k + 1) (hands (player e)))"
    if "a = SPLIT \<and> 0 \<le> i"
    using execute_split_others[of i e k r e'] k run that by simp
  have c4: "status (hands (snd (Player_double_down i (player e))) ! k) = DOUBLED
           \<and> cards (hands (player e') ! k) = cards (hands (player e) ! k) @ [c]
           \<and> (\<not> is_busted (hands (player e') ! k) \<longrightarrow>
                hands (player e') ! k
                  = (add_card c (hands (snd (Player_double_down i (player e))) ! k))
                      \<lparr>status := STOOD\<rparr>)"
    if a: "a = DOUBLE" and r: "r = Inr (Some c)" for c
  proof -
    let ?h = "hands (player e) ! k"
    have kl: "k < length (hands (player e))" using k by (simp add: py_index_SomeD)
    from execute_double_success[OF run[unfolded a r] k]
    have cd: "can_double ?h" and b: "bet ?h \<le> bankroll (player e)"
      and hs: "hands (player e') = (hands (player e))
                [k := (add_card c (Hand_double_down (?h\<lparr>bet := bet ?h * 2\<rparr>)))\<lparr>status := STOOD\<rparr>]"
      by simp_all
    note hd = double_down_success_hand[OF k cd b]
    show ?thesis using hs hd kl by (simp add: cards_add_card Hand_double_down_def)
  qed
  have p1: "status (hands (player e) ! k) \<noteq> ACTIVE \<longrightarrow> r = Inl IllegalAction \<and> e' = e"
    using c1 by blast
  have p2: "a \<noteq> SPLIT \<longrightarrow>
        length (hands (player e')) = length (hands (player e))
        \<and> (\<forall>j. j \<noteq> k \<longrightarrow> hands (player e') ! j = hands (player e) ! j)"
    using c2 by blast
  have p3: "a = SPLIT \<and> 0 \<le> i \<longrightarrow>
        hands (player e') = hands (player e)
        \<or> (take k (hands (player e')) = take k (hands (player e))
           \<and> drop (k + 2) (hands (player e')) = drop (k + 1) (hands (player e)))"
    using c3 by blast
  have p4: "a = DOUBLE \<longrightarrow>
        (\<forall>c. r = Inr (Some c) \<longrightarrow>
           status (hands (snd (Player_double_down i (player e))) ! k) = DOUBLED
           \<and> cards (hands (player e') ! k) = cards (hands (player e) ! k) @ [c]
           \<and> (\<not> is_busted (hands (player e') ! k) \<longrightarrow>
                hands (player e') ! k
                  = (add_card c (hands (snd (Player_double_down i (player e))) ! k))
                      \<lparr>status := STOOD\<rparr>))"
    using c4 by blast
  have p5: "hands (player (snd (play_dealer e))) = hands (player e)"
    by (simp add: play_dealer_player)
  have p6: "\<forall>u e1. play_dealer e = (Inr u, e1) \<longrightarrow>
        hand (dealer (snd (play_dealer e1))) = hand (dealer e1)"
    using play_dealer_again by blast
  show ?thesis
    by (intro conjI; (rule p1 p2 p3 p4 p5 p6 status_add_card check_early_blackjack_hands
                           resolve_round_hands))
qed


text \<open>
  A double-down on 5 and 6 with a ten on top of the shoe: after the player's
  \<^verbatim>\<open>double_down\<close> the hand is DOUBLED, no longer ACTIVE, with two cards; the engine
  then adds the ten to it and changes its status to STOOD, at value 21.
\<close>

theorem status_monotonic_counterexample:
  "status (hands (snd (Player_double_down 0 (player (sample_engine [Card TEN HEARTS]
       [Hand_init [Card FIVE CLUBS, Card SIX DIAMONDS] 10 False]
       [Card NINE HEARTS, Card EIGHT CLUBS])))) ! 0) = DOUBLED
   \<and> cards (hands (snd (Player_double_down 0 (player (sample_engine [Card TEN HEARTS]
       [Hand_init [Card FIVE CLUBS, Card SIX DIAMONDS] 10 False]
       [Card NINE HEARTS, Card EIGHT CLUBS])))) ! 0) = [Card FIVE CLUBS, Card SIX DIAMONDS]
   \<and> hands (player (snd (execute_action DOUBLE 0 (sample_engine [Card TEN HEARTS]
       [Hand_init [Card FIVE CLUBS, Card SIX DIAMONDS] 10 False]
       [Card NINE HEARTS, Card EIGHT CLUBS])))) ! 0
      = (add_card (Card TEN HEARTS)
          (hands (snd (Player_double_down 0 (player (sample_engine [Card TEN HEARTS]
             [Hand_init [Card FIVE CLUBS, Card SIX DIAMONDS] 10 False]
             [Card NINE HEARTS, Card EIGHT CLUBS])))) ! 0))\<lparr>status := STOOD\<rparr>
   \<and> cards (hands (player (snd (execute_action DOUBLE 0 (sample_engine [Card TEN HEARTS]
       [Hand_init [Card FIVE CLUBS, Card SIX DIAMONDS] 10 False]
       [Card NINE HEARTS, Card EIGHT CLUBS])))) ! 0)
      = [Card FIVE CLUBS, Card SIX DIAMONDS, Card TEN HEARTS]
   \<and> status (hands (player (snd (execute_action DOUBLE 0 (sample_engine [Card TEN HEARTS]
       [Hand_init [Card FIVE CLUBS, Card SIX DIAMONDS] 10 False]
       [Card NINE HEARTS, Card EIGHT CLUBS])))) ! 0) = STOOD
   \<and> hand_value (hands (player (snd (execute_action DOUBLE 0 (sample_engine [Card TEN HEARTS]
       [Hand_init [Card FIVE CLUBS, Card SIX DIAMONDS] 10 False]
       [Card NINE HEARTS, Card EIGHT CLUBS])))) ! 0) = 21"
  by (simp add: execute_action_def Player_double_down_def Hand_double_down_def
                eval_hand eval_engine)


theorem non_active_hands_are_left_alone_witness:
  "py_index (hands (player (sample_engine [Card TEN HEARTS]
       [Hand_init [Card FIVE CLUBS, Card SIX DIAMONDS] 10 False,
        stand (Hand_init [Card TEN CLUBS, Card NINE SPADES] 10 False)]
       [Card NINE HEARTS, Card EIGHT CLUBS]))) 0 = Some 0
   \<and> fst (execute_action DOUBLE 0 (sample_engine [Card TEN HEARTS]
       [Hand_init [Card FIVE CLUBS, Card SIX DIAMONDS] 10 False,
        stand (Hand_init [Card TEN CLUBS, Card NINE SPADES] 10 False)]
       [Card NINE HEARTS, Card EIGHT CLUBS])) = Inr (Some (Card TEN HEARTS))
   \<and> hands (player (snd (execute_action DOUBLE 0 (sample_engine [Card TEN HEARTS]
       [Hand_init [Card FIVE CLUBS, Card SIX DIAMONDS] 10 False,
        stand (Hand_init [Card TEN CLUBS, Card NINE SPADES] 10 False)]
       [Card NINE HEARTS, Card EIGHT CLUBS])))) ! 1
      = stand (Hand_init [Card TEN CLUBS, Card NINE SPADES] 10 False)
   \<and> cards (hands (player (snd (execute_action DOUBLE 0 (sample_engine [Card TEN HEARTS]
       [Hand_init [Card FIVE CLUBS, Card SIX DIAMONDS] 10 False,
        stand (Hand_init [Card TEN CLUBS, Card NINE SPADES] 10 False)]
       [Card NINE HEARTS, Card EIGHT CLUBS])))) ! 0)
      = [Card FIVE CLUBS, Card SIX DIAMONDS, Card TEN HEARTS]"
proof -
  let ?e = "sample_engine [Card TEN HEARTS]
       [Hand_init [Card FIVE CLUBS, Card SIX DIAMONDS] 10 False,
        stand (Hand_init [Card TEN CLUBS, Card NINE SPADES] 10 False)]
       [Card NINE HEARTS, Card EIGHT CLUBS]"
  have k: "py_index (hands (player ?e)) 0 = Some 0" by (simp add: eval_engine)
  have f: "fst (execute_action DOUBLE 0 ?e) = Inr (Some (Card TEN HEARTS))"
    by (simp add: execute_action_def Player_double_down_def Hand_double_down_def
                  eval_hand eval_engine)
  have run: "execute_action DOUBLE 0 ?e = (fst (execute_action DOUBLE 0 ?e), snd (execute_action DOUBLE 0 ?e))"
    by simp
  note w = non_active_hands_are_left_alone[OF k run]
  have o: "hands (player (snd (execute_action DOUBLE 0 ?e))) ! 1 = hands (player ?e) ! 1"
    using w[THEN conjunct2, THEN conjunct1] by simp
  have c: "cards (hands (player (snd (execute_action DOUBLE 0 ?e))) ! 0)
           = cards (hands (player ?e) ! 0) @ [Card TEN HEARTS]"
    using w[THEN conjunct2, THEN conjunct2, THEN conjunct2, THEN conjunct1] f by simp
  show ?thesis using k f o c by (simp add: eval_engine Hand_init_def)
qed

section \<open>The hole card stays hidden until it is revealed\<close>

lemma draws_refl: "draws s s"
  by (simp add: draws_def)

lemma draws_trans: "draws s s' \<Longrightarrow> draws s' s'' \<Longrightarrow> draws s s''"
  unfolding draws_def by (elim conjE exE) (auto intro!: exI)

lemma draws_player: "draws s (s\<lparr>player := p\<rparr>)"
  by (simp add: draws_def)

lemma deal_card_draws: "deal_card k f s = (r, s') \<Longrightarrow> draws s s'"
  by (cases "shoe_cards (shoe s)" rule: rev_cases)
     (auto simp: deal_card_def deal_def notify_def draws_def Let_def split: if_splits)

lemma set_status_draws: "draws s (set_status k st s)"
  by (simp add: draws_def set_status_def)

lemma execute_action_draws: "draws s (snd (execute_action a i s))"
proof (cases "py_index (hands (player s)) i")
  case None
  then show ?thesis by (simp add: execute_action_def draws_refl)
next
  case (Some k)
  show ?thesis
  proof (cases a)
    case HIT
    then show ?thesis using Some
      by (auto simp: execute_action_def Let_def draws_refl split: prod.splits sum.splits
               dest: deal_card_draws)
  next
    case STAND
    then show ?thesis using Some by (auto simp: execute_action_def Let_def draws_refl draws_player)
  next
    case DOUBLE
    have "draws s s''" if "deal_card k True (s\<lparr>player := p\<rparr>) = (r, s'')" for p r s''
      using draws_trans[OF draws_player deal_card_draws[OF that]] .
    moreover have "draws s (set_status k st s'')" if "deal_card k True (s\<lparr>player := p\<rparr>) = (r, s'')" for p r s'' st
      using draws_trans[OF draws_trans[OF draws_player deal_card_draws[OF that]] set_status_draws] .
    ultimately show ?thesis using Some DOUBLE
      by (auto simp: execute_action_def Let_def draws_refl draws_player split: prod.splits sum.splits)
  next
    case SPLIT
    have one: "draws s s''" if "deal_card k1 True (s\<lparr>player := p\<rparr>) = (r, s'')" for p r s'' k1
      using draws_trans[OF draws_player deal_card_draws[OF that]] .
    have two: "draws s s3" if "deal_card k1 True (s\<lparr>player := p\<rparr>) = (r, s'')" "deal_card k2 True s'' = (r3, s3)" for p r s'' k1 k2 r3 s3
      using draws_trans[OF one[OF that(1)] deal_card_draws[OF that(2)]] .
    show ?thesis using Some SPLIT one two
      by (auto simp: execute_action_def Let_def draws_refl draws_player split: prod.splits sum.splits)
  next
    case SURRENDER
    then show ?thesis using Some
      by (auto simp: execute_action_def Let_def draws_refl draws_player split: prod.splits sum.splits)
  qed
qed

lemma hole_hidden_draws:
  assumes h: "hole_hidden n hc s" and d: "draws s s'"
  shows "hole_hidden n hc s'"
proof (cases "hole_card_revealed (dealer s)")
  case True
  then show ?thesis using d by (simp add: hole_hidden_def draws_def)
next
  case False
  with h have hh: "hole_card (hand (dealer s)) = Some hc" "hc \<notin> set (shoe_cards (shoe s))"
    "hc \<notin> set (drop n (exposed s))" by (simp_all add: hole_hidden_def)
  from d obtain xs where xs: "exposed s' = exposed s @ xs" "set xs \<subseteq> set (shoe_cards (shoe s))"
    and dl: "dealer s' = dealer s" and sh: "set (shoe_cards (shoe s')) \<subseteq> set (shoe_cards (shoe s))"
    by (auto simp: draws_def)
  have "set (drop n (exposed s')) \<subseteq> set (drop n (exposed s)) \<union> set xs"
    using xs(1) by (auto dest: in_set_dropD)
  then have "hc \<notin> set (drop n (exposed s'))" using hh xs(2) by blast
  then show ?thesis using hh dl sh by (auto simp: hole_hidden_def)
qed

lemma check_early_blackjack_reveals:
  "hole_card_revealed (dealer (snd (check_early_blackjack s))) \<or> snd (check_early_blackjack s) = s"
  by (simp add: check_early_blackjack_def Let_def reveal_and_notify_simps split: option.splits)

lemma check_early_blackjack_none:
  "fst (check_early_blackjack s) = Inr None \<Longrightarrow> snd (check_early_blackjack s) = s"
  by (auto simp: check_early_blackjack_def Let_def split: option.splits if_splits)

lemma play_dealer_reveals: "hole_card_revealed (dealer (snd (play_dealer s)))"
proof -
  let ?f = "reveal_and_notify s"
  have r: "hole_card_revealed (dealer ?f)" by (simp add: reveal_and_notify_simps)
  then have "hole_card_revealed (dealer (snd (dealer_play_loop ?f)))"
    using dealer_play_loop_frame[of ?f] by simp
  then show ?thesis using r
    by (cases "dealer_play_loop ?f"; cases "fst (dealer_play_loop ?f)")
       (auto simp: play_dealer_def Dealer_play_def Let_def)
qed

lemma resolve_round_frame:
  "dealer (snd (resolve_round s)) = dealer s \<and> shoe (snd (resolve_round s)) = shoe s
   \<and> exposed (snd (resolve_round s)) = exposed s"
  by (simp add: resolve_round_def Let_def split: prod.splits)

lemma hole_hidden_step: "hole_hidden n hc s \<Longrightarrow> hole_hidden n hc (engine_step s c)"
proof (cases c)
  case (Execute a i)
  assume "hole_hidden n hc s"
  then show ?thesis using Execute hole_hidden_draws[OF _ execute_action_draws] by simp
next
  case CheckEarlyBlackjack
  assume "hole_hidden n hc s"
  then show ?thesis using CheckEarlyBlackjack check_early_blackjack_reveals[of s]
    by (auto simp: hole_hidden_def)
next
  case PlayDealer
  then show ?thesis using play_dealer_reveals[of s] by (simp add: hole_hidden_def)
next
  case ResolveRound
  assume "hole_hidden n hc s"
  then show ?thesis using ResolveRound resolve_round_frame[of s] by (simp add: hole_hidden_def)
qed

lemma hole_hidden_calls: "hole_hidden n hc s \<Longrightarrow> hole_hidden n hc (engine_calls cs s)"
  unfolding engine_calls_def
  by (induction cs arbitrary: s) (simp_all add: hole_hidden_step)

lemma burn_one:
  "burn 1 s = (if shoe_cards s \<noteq> []
               then ([last (shoe_cards s)],
                     s\<lparr>shoe_cards := butlast (shoe_cards s), dealt_count := dealt_count s + 1\<rparr>)
               else ([], s))"
  by (simp add: burn_def deal_def)

lemma start_state_props:
  assumes "needs_shuffle (shoe e) \<or> distinct (shoe_cards (shoe e))"
  shows "distinct (shoe_cards (shoe (start_state rnd e)))
    \<and> (\<exists>bs. exposed (start_state rnd e) = exposed e @ bs
             \<and> set bs \<inter> set (shoe_cards (shoe (start_state rnd e))) = {})
    \<and> on_card_exposed (start_state rnd e) = on_card_exposed e"
proof (cases "needs_shuffle (shoe e)")
  case False
  then show ?thesis using assms by (simp add: start_state_def)
next
  case True
  let ?s = "shuffle rnd (shoe e)"
  have d: "distinct (shoe_cards ?s)" by (rule distinct_shuffle)
  have ne: "shoe_cards ?s \<noteq> []"
    using mset_shuffle[of rnd "shoe e"] length_create_deck by (metis mset_eq_length list.size(3) zero_neq_numeral)
  then obtain xs x where xs: "shoe_cards ?s = xs @ [x]" by (cases "shoe_cards ?s" rule: rev_cases) auto
  have dx: "distinct xs" "x \<notin> set xs" using d xs by simp_all
  show ?thesis using True ne xs dx
    by (auto simp: start_state_def burn_one notify_def Let_def)
qed

lemma start_round_unfold:
  "start_round rnd b e =
     (let e0 = start_state rnd e
      in case Player_new_hand b (player e0) of
           (Inl err, p) \<Rightarrow> (Inl err, e0\<lparr>player := p\<rparr>)
         | (Inr player_hand, p) \<Rightarrow>
      (let e1 = e0\<lparr>player := p, dealer := Dealer_new_hand (dealer e0)\<rparr>
       in case deal_card 0 True e1 of (Inl err, e2) \<Rightarrow> (Inl err, e2) | (Inr c1, e2) \<Rightarrow>
          (case deal_to_dealer True e2 of (Inl err, e3) \<Rightarrow> (Inl err, e3) | (Inr c2, e3) \<Rightarrow>
          (case deal_card 0 True e3 of (Inl err, e4) \<Rightarrow> (Inl err, e4) | (Inr c3, e4) \<Rightarrow>
          (case deal_to_dealer False e4 of (Inl err, e5) \<Rightarrow> (Inl err, e5) | (Inr c4, e5) \<Rightarrow>
             (Inr (hands (player e5) ! 0, upcard (hand (dealer e5))),
              e5\<lparr>round_in_progress := True\<rparr>))))))"
  by (simp add: start_round_def start_state_def)

lemma deal_card_success:
  "deal_card k f s = (Inr c, s') \<Longrightarrow>
     shoe_cards (shoe s) = shoe_cards (shoe s') @ [c] \<and> dealer s' = dealer s
     \<and> on_card_exposed s' = on_card_exposed s
     \<and> exposed s' = exposed s @ (if f \<and> on_card_exposed s then [c] else [])"
  by (auto simp: deal_card_def deal_def notify_def Let_def split: if_splits)

lemma deal_to_dealer_success:
  "deal_to_dealer f s = (Inr c, s') \<Longrightarrow>
     shoe_cards (shoe s) = shoe_cards (shoe s') @ [c]
     \<and> dealer s' = receive_card c f (dealer s)
     \<and> on_card_exposed s' = on_card_exposed s
     \<and> exposed s' = exposed s @ (if f \<and> on_card_exposed s then [c] else [])"
  by (auto simp: deal_to_dealer_def deal_def notify_def Let_def split: if_splits)

lemma start_round_deals:
  assumes sr: "start_round rnd b e = (Inr res, e1)"
  shows "\<exists>c1 c2 c3 c4.
     shoe_cards (shoe (start_state rnd e)) = shoe_cards (shoe e1) @ [c4, c3, c2, c1]
     \<and> cards (hand (dealer e1)) = [c2, c4]
     \<and> \<not> hole_card_revealed (dealer e1)
     \<and> exposed e1 = exposed (start_state rnd e)
                      @ (if on_card_exposed e then [c1, c2, c3] else [])"
proof -
  let ?e0 = "start_state rnd e"
  have cb: "on_card_exposed ?e0 = on_card_exposed e"
    by (auto simp: start_state_def notify_def Let_def split: prod.splits)
  from sr obtain ph p where nh: "Player_new_hand b (player ?e0) = (Inr ph, p)"
    by (auto simp: start_round_unfold Let_def split: prod.splits sum.splits)
  let ?ea = "?e0\<lparr>player := p, dealer := Dealer_new_hand (dealer ?e0)\<rparr>"
  from sr nh obtain c1 eb where d1: "deal_card 0 True ?ea = (Inr c1, eb)"
    by (auto simp: start_round_unfold Let_def split: prod.splits sum.splits)
  from sr nh d1 obtain c2 ec where d2: "deal_to_dealer True eb = (Inr c2, ec)"
    by (auto simp: start_round_unfold Let_def split: prod.splits sum.splits)
  from sr nh d1 d2 obtain c3 ed where d3: "deal_card 0 True ec = (Inr c3, ed)"
    by (auto simp: start_round_unfold Let_def split: prod.splits sum.splits)
  from sr nh d1 d2 d3 obtain c4 ee where d4: "deal_to_dealer False ed = (Inr c4, ee)"
    by (auto simp: start_round_unfold Let_def split: prod.splits sum.splits)
  have e1: "e1 = ee\<lparr>round_in_progress := True\<rparr>"
    using sr nh d1 d2 d3 d4 by (simp add: start_round_unfold Let_def)
  note s1 = deal_card_success[OF d1] and s2 = deal_to_dealer_success[OF d2]
    and s3 = deal_card_success[OF d3] and s4 = deal_to_dealer_success[OF d4]
  have sh: "shoe_cards (shoe ?e0) = shoe_cards (shoe e1) @ [c4, c3, c2, c1]"
    using s1 s2 s3 s4 e1 by simp
  have dl: "dealer e1 = receive_card c4 False (receive_card c2 True (Dealer_new_hand (dealer ?e0)))"
    using s1 s2 s3 s4 e1 by simp
  have cs: "cards (hand (dealer e1)) = [c2, c4]"
    unfolding dl by (simp add: receive_card_simps cards_add_card Dealer_new_hand_def Hand_init_def)
  have rv: "\<not> hole_card_revealed (dealer e1)"
    unfolding dl by (simp add: receive_card_simps Dealer_new_hand_def)
  have ex: "exposed e1 = exposed ?e0 @ (if on_card_exposed e then [c1, c2, c3] else [])"
    using s1 s2 s3 s4 e1 cb by simp
  show ?thesis using sh cs rv ex by blast
qed

lemma start_round_hides:
  assumes pre: "needs_shuffle (shoe e) \<or> distinct (shoe_cards (shoe e))"
    and sr: "start_round rnd b e = (Inr res, e1)"
  shows "\<exists>hc. hole_card (hand (dealer e1)) = Some hc
              \<and> \<not> hole_card_revealed (dealer e1)
              \<and> hole_hidden (length (exposed e)) hc e1"
proof -
  from start_round_deals[OF sr] obtain c1 c2 c3 c4 where
    sh: "shoe_cards (shoe (start_state rnd e)) = shoe_cards (shoe e1) @ [c4, c3, c2, c1]"
    and cs: "cards (hand (dealer e1)) = [c2, c4]"
    and rv: "\<not> hole_card_revealed (dealer e1)"
    and ex: "exposed e1 = exposed (start_state rnd e)
                      @ (if on_card_exposed e then [c1, c2, c3] else [])"
    by blast
  from start_state_props[OF pre, of rnd] obtain bs where
    d: "distinct (shoe_cards (shoe (start_state rnd e)))"
    and bs: "exposed (start_state rnd e) = exposed e @ bs"
      "set bs \<inter> set (shoe_cards (shoe (start_state rnd e))) = {}"
    by blast
  have hc: "hole_card (hand (dealer e1)) = Some c4" using cs by (simp add: hole_card_def)
  have n1: "c4 \<notin> set (shoe_cards (shoe e1))" "c4 \<noteq> c1" "c4 \<noteq> c2" "c4 \<noteq> c3"
    using d sh by auto
  have n2: "c4 \<notin> set bs" using bs(2) sh by auto
  have "drop (length (exposed e)) (exposed e1) = bs @ (if on_card_exposed e then [c1, c2, c3] else [])"
    using ex bs(1) by simp
  then have "c4 \<notin> set (drop (length (exposed e)) (exposed e1))" using n1 n2 by simp
  then show ?thesis using hc rv n1 by (simp add: hole_hidden_def)
qed


text \<open>
  C1. Take a shoe whose cards are pairwise different (any shoe that came out of a
  shuffle is) or that is about to be reshuffled, and a round begun by a successful
  \<^verbatim>\<open>start_round\<close>. After \<^verbatim>\<open>start_round\<close> the hole card is in the dealer's hand and
  not revealed; and after any sequence of \<^verbatim>\<open>execute_action\<close>,
  \<^verbatim>\<open>check_early_blackjack\<close>, \<^verbatim>\<open>play_dealer\<close> and \<^verbatim>\<open>resolve_round\<close> calls, as long
  as \<^verbatim>\<open>hole_card_revealed\<close> is false the dealer holds the same hole card and the callback
  has not received it since the round began. \<^verbatim>\<open>execute_action\<close> and \<^verbatim>\<open>resolve_round\<close>
  never touch the dealer, and a \<^verbatim>\<open>check_early_blackjack\<close> that resolves nothing changes
  nothing, so the reveal happens only in an early resolution or in \<^verbatim>\<open>play_dealer\<close>.
\<close>

theorem hole_card_hidden_until_reveal:
  assumes pre: "needs_shuffle (shoe e) \<or> distinct (shoe_cards (shoe e))"
    and sr: "start_round rnd b e = (Inr res, e1)"
  shows "\<not> hole_card_revealed (dealer e1)
    \<and> (\<exists>hc. hole_card (hand (dealer e1)) = Some hc
          \<and> (\<forall>cs. \<not> hole_card_revealed (dealer (engine_calls cs e1)) \<longrightarrow>
                 hole_card (hand (dealer (engine_calls cs e1))) = Some hc
                 \<and> hc \<notin> set (drop (length (exposed e)) (exposed (engine_calls cs e1)))))
    \<and> (\<forall>s a i. dealer (snd (execute_action a i s)) = dealer s)
    \<and> (\<forall>s. dealer (snd (resolve_round s)) = dealer s)
    \<and> (\<forall>s. fst (check_early_blackjack s) = Inr None \<longrightarrow> snd (check_early_blackjack s) = s)"
proof -
  from start_round_hides[OF pre sr] obtain hc where
    hc: "hole_card (hand (dealer e1)) = Some hc" and rv: "\<not> hole_card_revealed (dealer e1)"
    and hh: "hole_hidden (length (exposed e)) hc e1" by blast
  have inv: "hole_card (hand (dealer (engine_calls cs e1))) = Some hc
             \<and> hc \<notin> set (drop (length (exposed e)) (exposed (engine_calls cs e1)))"
    if "\<not> hole_card_revealed (dealer (engine_calls cs e1))" for cs
    using hole_hidden_calls[OF hh, of cs] that by (simp add: hole_hidden_def)
  have p2: "\<exists>hc. hole_card (hand (dealer e1)) = Some hc
          \<and> (\<forall>cs. \<not> hole_card_revealed (dealer (engine_calls cs e1)) \<longrightarrow>
                 hole_card (hand (dealer (engine_calls cs e1))) = Some hc
                 \<and> hc \<notin> set (drop (length (exposed e)) (exposed (engine_calls cs e1))))"
    using hc inv by blast
  have p3: "\<forall>s a i. dealer (snd (execute_action a i s)) = dealer s"
    using execute_action_draws by (simp add: draws_def)
  have p4: "\<forall>s. dealer (snd (resolve_round s)) = dealer s"
    by (simp add: resolve_round_frame)
  have p5: "\<forall>s. fst (check_early_blackjack s) = Inr None \<longrightarrow> snd (check_early_blackjack s) = s"
    using check_early_blackjack_none by blast
  show ?thesis by (intro conjI; (rule rv p2 p3 p4 p5))
qed

lemmas eval_round = start_round_def needs_shuffle_def penetration_reached_def DECK_SIZE_def
  Player_new_hand_def Dealer_new_hand_def deal_to_dealer_def receive_card_def Let_def

theorem hole_card_hidden_until_reveal_witness:
  "distinct (shoe_cards (shoe (sample_engine
       [Card TWO CLUBS, Card SEVEN CLUBS, Card NINE HEARTS, Card NINE DIAMONDS,
        Card SIX SPADES, Card TEN CLUBS] [] [])))
   \<and> fst (start_round no_draws (Some 10) (sample_engine
       [Card TWO CLUBS, Card SEVEN CLUBS, Card NINE HEARTS, Card NINE DIAMONDS,
        Card SIX SPADES, Card TEN CLUBS] [] []))
      = Inr (Hand_init [Card TEN CLUBS, Card NINE DIAMONDS] 10 False, Some (Card SIX SPADES))
   \<and> hole_card (hand (dealer (snd (start_round no_draws (Some 10) (sample_engine
       [Card TWO CLUBS, Card SEVEN CLUBS, Card NINE HEARTS, Card NINE DIAMONDS,
        Card SIX SPADES, Card TEN CLUBS] [] []))))) = Some (Card NINE HEARTS)
   \<and> exposed (snd (start_round no_draws (Some 10) (sample_engine
       [Card TWO CLUBS, Card SEVEN CLUBS, Card NINE HEARTS, Card NINE DIAMONDS,
        Card SIX SPADES, Card TEN CLUBS] [] [])))
      = [Card TEN CLUBS, Card SIX SPADES, Card NINE DIAMONDS]
   \<and> \<not> hole_card_revealed (dealer (engine_calls [Execute HIT 0]
        (snd (start_round no_draws (Some 10) (sample_engine
          [Card TWO CLUBS, Card SEVEN CLUBS, Card NINE HEARTS, Card NINE DIAMONDS,
           Card SIX SPADES, Card TEN CLUBS] [] [])))))
   \<and> Card NINE HEARTS \<notin> set (exposed (engine_calls [Execute HIT 0]
        (snd (start_round no_draws (Some 10) (sample_engine
          [Card TWO CLUBS, Card SEVEN CLUBS, Card NINE HEARTS, Card NINE DIAMONDS,
           Card SIX SPADES, Card TEN CLUBS] [] [])))))"
proof -
  let ?e = "sample_engine
       [Card TWO CLUBS, Card SEVEN CLUBS, Card NINE HEARTS, Card NINE DIAMONDS,
        Card SIX SPADES, Card TEN CLUBS] [] []"
  let ?e1 = "snd (start_round no_draws (Some 10) ?e)"
  have d: "distinct (shoe_cards (shoe ?e))" by (simp add: eval_engine)
  then have pre: "needs_shuffle (shoe ?e) \<or> distinct (shoe_cards (shoe ?e))" by simp
  have f: "fst (start_round no_draws (Some 10) ?e)
           = Inr (Hand_init [Card TEN CLUBS, Card NINE DIAMONDS] 10 False, Some (Card SIX SPADES))"
    by (simp add: eval_round eval_engine eval_hand)
  then have sr: "start_round no_draws (Some 10) ?e
           = (Inr (Hand_init [Card TEN CLUBS, Card NINE DIAMONDS] 10 False, Some (Card SIX SPADES)), ?e1)"
    by (metis prod.collapse)
  have h: "hole_card (hand (dealer ?e1)) = Some (Card NINE HEARTS)"
    by (simp add: eval_round eval_engine eval_hand)
  have x: "exposed ?e1 = [Card TEN CLUBS, Card SIX SPADES, Card NINE DIAMONDS]"
    by (simp add: eval_round eval_engine eval_hand)
  have x0: "length (exposed ?e) = 0" by (simp add: eval_engine)
  note w = hole_card_hidden_until_reveal[OF pre sr]
  have rv: "\<not> hole_card_revealed (dealer ?e1)" using w by blast
  have dl: "dealer (engine_calls [Execute HIT 0] ?e1) = dealer ?e1"
    using w[THEN conjunct2, THEN conjunct2, THEN conjunct1] by (simp add: engine_calls_def)
  then have rv1: "\<not> hole_card_revealed (dealer (engine_calls [Execute HIT 0] ?e1))"
    using rv by simp
  from w[THEN conjunct2, THEN conjunct1] h
  have "\<forall>cs. \<not> hole_card_revealed (dealer (engine_calls cs ?e1)) \<longrightarrow>
          Card NINE HEARTS \<notin> set (drop (length (exposed ?e)) (exposed (engine_calls cs ?e1)))"
    by auto
  then have nx: "Card NINE HEARTS \<notin> set (exposed (engine_calls [Execute HIT 0] ?e1))"
    using rv1 x0 by (metis drop0)
  show ?thesis using d f h x rv1 nx by blast
qed

section \<open>The dealer's hits\<close>

lemma demote_counting_stop: "\<not> (t > 21 \<and> a > 0) \<Longrightarrow> demote_counting t a n = (t, n)"
  by (subst demote_counting.simps) auto

lemma demote_counting_step:
  "t > 21 \<and> a > 0 \<Longrightarrow> demote_counting t a n = demote_counting (t - 10) (a - 1) (n + 1)"
  by (subst demote_counting.simps) simp

text \<open>
  The engine's callback adds the card it deals to the dealer's hand, and the loop of
  \<^verbatim>\<open>Dealer.play\<close> passes the returned card to \<^verbatim>\<open>receive_card\<close> once more. A dealer
  on 16 who draws the king of spades ends with that king twice in hand, the second copy
  added to a hand the first had already busted; the callback sees the king once.
\<close>

lemma dealer_play_adds_hit_card_twice:
  "fst (play_dealer (sample_engine [Card KING SPADES] []
          [Card TEN CLUBS, Card SIX DIAMONDS])) = Inr ()
   \<and> cards (hand (dealer (snd (play_dealer (sample_engine [Card KING SPADES] []
          [Card TEN CLUBS, Card SIX DIAMONDS])))))
      = [Card TEN CLUBS, Card SIX DIAMONDS, Card KING SPADES, Card KING SPADES]
   \<and> exposed (snd (play_dealer (sample_engine [Card KING SPADES] []
          [Card TEN CLUBS, Card SIX DIAMONDS])))
      = [Card SIX DIAMONDS, Card KING SPADES]"
  by (simp add: play_dealer_def Dealer_play_def reveal_and_notify_def reveal_hole_card_def
                deal_callback_def receive_card_def should_hit_def soft_value_def
                demote_counting_stop demote_counting_step
                dealer_play_loop_stop dealer_play_loop_step eval_engine eval_hand Let_def)

end
